theory Spec2Isabelle
  imports Main "HOL-Library.Word" "HOL-Library.Sublist"
begin

unbundle bit_operations_syntax

section \<open>The mapcidr command: options and the world outside the program\<close>

text \<open>
  The program is \<^verbatim>\<open>cmd/mapcidr/main.go\<close>: \<^verbatim>\<open>main\<close> feeds CIDR strings into the
  channel \<^verbatim>\<open>chancidr\<close>, the goroutine \<^verbatim>\<open>process\<close> turns each of them into result
  strings on the channel \<^verbatim>\<open>outputchan\<close>, and the goroutine \<^verbatim>\<open>output\<close> prints them.
\<close>

type_synonym err = string

text \<open>The struct \<^verbatim>\<open>Options\<close>. Go's \<^verbatim>\<open>int\<close> is only compared with 0 and passed on.\<close>

record Options =
  Slices :: int
  HostCount :: int
  Cidr :: string
  FileCidr :: string
  Silent :: bool
  Version :: bool
  Output :: string

text \<open>
  Everything the program calls but does not define is a field of the environment:
  \<^item> \<^verbatim>\<open>net.ParseCIDR\<close> (only its error is looked at), and the library functions
    \<^verbatim>\<open>mapcidr.SplitN\<close>, \<^verbatim>\<open>mapcidr.SplitByNumber\<close>, \<^verbatim>\<open>mapcidr.IPAddresses\<close>; a subnet
    is a value of the type \<open>'n\<close> with its \<^verbatim>\<open>String()\<close> method;
  \<^item> \<^verbatim>\<open>os.Stdin.Stat()\<close>: an error or the file mode, a 32-bit value;
  \<^item> the tokens a \<^verbatim>\<open>bufio.Scanner\<close> yields on standard input, and for a path what
    \<^verbatim>\<open>os.Open\<close> returns: an error, or the tokens the scanner yields on that file
    (what the scanner yields on given bytes is \<open>ScanLines\<close>, further down);
  \<^item> \<^verbatim>\<open>os.Create\<close> (its error, if any), \<^verbatim>\<open>WriteString\<close> on the created file (from
    the file's content and the data to the new content and the error, if any), and
    the files that exist when the program starts.
  The inputs are finite lists of tokens. The input file is read through \<open>OpenScan\<close>
  only: a run whose \<^verbatim>\<open>-o\<close> path is also its \<^verbatim>\<open>-l\<close> path, where the truncation races
  with the reading, is outside the model.
\<close>

record 'n env =
  ParseCIDR :: "string \<Rightarrow> err option"
  SplitN :: "string \<Rightarrow> int \<Rightarrow> err + 'n list"
  SplitByNumber :: "string \<Rightarrow> int \<Rightarrow> err + 'n list"
  IPAddresses :: "string \<Rightarrow> err + string list"
  IPNetString :: "'n \<Rightarrow> string"
  StdinStat :: "err + 32 word"
  StdinScan :: "string list"
  OpenScan :: "string \<Rightarrow> err + string list"
  Create :: "string \<Rightarrow> err option"
  WriteString :: "string \<Rightarrow> string \<Rightarrow> string \<times> err option"
  InitFiles :: "string \<Rightarrow> string option"

text \<open>\<^verbatim>\<open>os.ModeNamedPipe\<close> is \<^verbatim>\<open>1 << (32 - 1 - 6)\<close> in \<^verbatim>\<open>io/fs\<close>.\<close>

definition ModeNamedPipe :: "32 word" where
  "ModeNamedPipe = push_bit (32 - 1 - 6) 1"

definition hasStdin :: "'n env \<Rightarrow> bool" where
  "hasStdin e =
     (case StdinStat e of
        Inl er \<Rightarrow> False
      | Inr mode \<Rightarrow> if mode AND ModeNamedPipe = 0 then False else True)"

text \<open>\<^verbatim>\<open>validateOptions\<close>: the message of the fatal error, if there is one.\<close>

definition validateOptions :: "Options \<Rightarrow> 'n env \<Rightarrow> err option" where
  "validateOptions opts e =
     (if Cidr opts = [] \<and> \<not> hasStdin e \<and> FileCidr opts = [] then
        Some ''No input provided!''
      else if Slices opts > 0 \<and> HostCount opts > 0 then
        Some ''sbc and sbh cant be used together!''
      else if Cidr opts \<noteq> [] \<and> FileCidr opts \<noteq> [] then
        Some ''CIDR and List input cant be used together!''
      else None)"

text \<open>
  \<^verbatim>\<open>ParseOptions\<close> after the flags are read: the exit status when the program ends
  there (\<^verbatim>\<open>os.Exit(0)\<close> for the version, \<^verbatim>\<open>gologger.Fatalf\<close> is \<^verbatim>\<open>os.Exit(1)\<close>).
\<close>

definition ParseOptions :: "Options \<Rightarrow> 'n env \<Rightarrow> nat option" where
  "ParseOptions opts e =
     (if Version opts then Some 0
      else case validateOptions opts e of Some msg \<Rightarrow> Some 1 | None \<Rightarrow> None)"

section \<open>The state of the running pipeline\<close>

text \<open>
  Each of the three threads of control has a program point; the lists it carries are
  what its loop has still to go through.
  \<^item> \<^verbatim>\<open>main\<close>, lines 115 to 141: the test of \<^verbatim>\<open>options.Cidr\<close> with its send, the test
    of \<^verbatim>\<open>hasStdin()\<close>, the scanner loop on standard input, the test of
    \<^verbatim>\<open>options.FileCidr\<close> with \<^verbatim>\<open>os.Open\<close>, the scanner loop on the file,
    \<^verbatim>\<open>close(chancidr)\<close>, \<^verbatim>\<open>wg.Wait()\<close>, and the return.
  \<^item> \<^verbatim>\<open>process\<close>, lines 145 to 178: the receive of \<^verbatim>\<open>range chancidr\<close>, the body from
    \<^verbatim>\<open>net.ParseCIDR\<close> to the call of the transformation, the loop that sends the
    results, \<^verbatim>\<open>close(outputchan)\<close>, the deferred \<^verbatim>\<open>wg.Done()\<close>, and the end.
  \<^item> \<^verbatim>\<open>output\<close>, lines 183 to 201: \<^verbatim>\<open>os.Create\<close>, the receive of
    \<^verbatim>\<open>range outputchan\<close>, the loop body, the deferred \<^verbatim>\<open>wg.Done()\<close>, and the end.
\<close>

datatype main_pc =
  M_IfCidr | M_IfStdin | M_ScanStdin "string list" | M_IfFile | M_ScanFile "string list"
  | M_Close | M_Wait | M_Return

datatype proc_pc =
  P_Range | P_Body string | P_Send "string list" | P_Close | P_Defer | P_Done

datatype out_pc =
  O_Create | O_Range | O_Body string | O_Defer | O_Done

text \<open>The calls of the library and of \<^verbatim>\<open>os.Create\<close>, logged in the order made.\<close>

datatype call =
  Call_ParseCIDR string
  | Call_SplitN string int
  | Call_SplitByNumber string int
  | Call_IPAddresses string
  | Call_Create string

text \<open>
  The state: the three program points, the counter of the wait group, whether each
  channel is closed, the file handle \<^verbatim>\<open>f\<close> of \<^verbatim>\<open>output\<close> (the path it was created
  at, \<open>None\<close> for \<^verbatim>\<open>nil\<close>), the files, what was written to standard output (one
  element for each write), and the exit status once the process has ended.
  Three fields are history only: \<open>sent\<close> lists the values handed over on
  \<^verbatim>\<open>chancidr\<close>, \<open>fwd\<close> those handed over on \<^verbatim>\<open>outputchan\<close>, \<open>calls\<close> the calls made.
\<close>

record state =
  mpc :: main_pc
  ppc :: proc_pc
  opc :: out_pc
  wg :: nat
  chancidr_closed :: bool
  outputchan_closed :: bool
  fhandle :: "string option"
  files :: "string \<Rightarrow> string option"
  stdout :: "string list"
  exit :: "nat option"
  sent :: "string list"
  fwd :: "string list"
  calls :: "call list"

text \<open>\<^verbatim>\<open>gologger.Fatalf\<close> ends the process with status 1, a Go panic with status 2.\<close>

definition fatal :: "state \<Rightarrow> state" where
  "fatal s = s\<lparr>exit := Some 1\<rparr>"

definition panic :: "state \<Rightarrow> state" where
  "panic s = s\<lparr>exit := Some 2\<rparr>"

text \<open>
  The state at line 115: both goroutines are started (\<^verbatim>\<open>wg.Add(1)\<close> twice), nothing
  is sent, closed or written yet.
\<close>

definition start :: "'n env \<Rightarrow> state" where
  "start e =
     \<lparr>mpc = M_IfCidr, ppc = P_Range, opc = O_Create, wg = 2,
      chancidr_closed = False, outputchan_closed = False,
      fhandle = None, files = InitFiles e, stdout = [], exit = None,
      sent = [], fwd = [], calls = []\<rparr>"

section \<open>The steps of the three threads\<close>

text \<open>
  Both channels are made by \<^verbatim>\<open>make(chan string)\<close>, with no capacity: a send completes
  only by handing the value to the receiver, which must be waiting at its receive.
  A step that is blocked is \<open>None\<close>. A send on a closed channel and the close of a
  closed channel panic.
\<close>

definition send_chancidr :: "string \<Rightarrow> main_pc \<Rightarrow> state \<Rightarrow> state option" where
  "send_chancidr v nxt s =
     (if chancidr_closed s then Some (panic s)
      else if ppc s = P_Range then
        Some (s\<lparr>mpc := nxt, ppc := P_Body v, sent := sent s @ [v]\<rparr>)
      else None)"

definition send_outputchan :: "string \<Rightarrow> proc_pc \<Rightarrow> state \<Rightarrow> state option" where
  "send_outputchan v nxt s =
     (if outputchan_closed s then Some (panic s)
      else if opc s = O_Range then
        Some (s\<lparr>ppc := nxt, opc := O_Body v, fwd := fwd s @ [v]\<rparr>)
      else None)"

text \<open>\<^verbatim>\<open>wg.Done()\<close>: a negative counter panics.\<close>

definition wg_Done :: "state \<Rightarrow> state" where
  "wg_Done s = (if wg s = 0 then panic s else s\<lparr>wg := wg s - 1\<rparr>)"

definition main_step :: "Options \<Rightarrow> 'n env \<Rightarrow> state \<Rightarrow> state option" where
  "main_step opts e s =
     (case mpc s of
        M_IfCidr \<Rightarrow>
          if Cidr opts \<noteq> [] then send_chancidr (Cidr opts) M_IfStdin s
          else Some (s\<lparr>mpc := M_IfStdin\<rparr>)
      | M_IfStdin \<Rightarrow>
          if hasStdin e then Some (s\<lparr>mpc := M_ScanStdin (StdinScan e)\<rparr>)
          else Some (s\<lparr>mpc := M_IfFile\<rparr>)
      | M_ScanStdin ls \<Rightarrow>
          (case ls of
             [] \<Rightarrow> Some (s\<lparr>mpc := M_IfFile\<rparr>)
           | l # ls' \<Rightarrow> send_chancidr l (M_ScanStdin ls') s)
      | M_IfFile \<Rightarrow>
          if FileCidr opts \<noteq> [] then
            (case OpenScan e (FileCidr opts) of
               Inl er \<Rightarrow> Some (fatal s)
             | Inr ls \<Rightarrow> Some (s\<lparr>mpc := M_ScanFile ls\<rparr>))
          else Some (s\<lparr>mpc := M_Close\<rparr>)
      | M_ScanFile ls \<Rightarrow>
          (case ls of
             [] \<Rightarrow> Some (s\<lparr>mpc := M_Close\<rparr>)
           | l # ls' \<Rightarrow> send_chancidr l (M_ScanFile ls') s)
      | M_Close \<Rightarrow>
          if chancidr_closed s then Some (panic s)
          else Some (s\<lparr>mpc := M_Wait, chancidr_closed := True\<rparr>)
      | M_Wait \<Rightarrow>
          if wg s = 0 then Some (s\<lparr>mpc := M_Return, exit := Some 0\<rparr>) else None
      | M_Return \<Rightarrow> None)"

text \<open>
  The body of the loop of \<^verbatim>\<open>process\<close> for one descriptor, lines 147 to 174, up to
  the sends: the calls it makes, and the error that is fatal or the strings to send.
\<close>

definition process_body :: "Options \<Rightarrow> 'n env \<Rightarrow> string \<Rightarrow> call list \<times> (err + string list)" where
  "process_body opts e cidr =
     (case ParseCIDR e cidr of
        Some er \<Rightarrow> ([Call_ParseCIDR cidr], Inl er)
      | None \<Rightarrow>
          if Slices opts > 0 then
            (case SplitN e cidr (Slices opts) of
               Inl er \<Rightarrow> ([Call_ParseCIDR cidr, Call_SplitN cidr (Slices opts)], Inl er)
             | Inr subnets \<Rightarrow>
                 ([Call_ParseCIDR cidr, Call_SplitN cidr (Slices opts)],
                  Inr (map (IPNetString e) subnets)))
          else if HostCount opts > 0 then
            (case SplitByNumber e cidr (HostCount opts) of
               Inl er \<Rightarrow>
                 ([Call_ParseCIDR cidr, Call_SplitByNumber cidr (HostCount opts)], Inl er)
             | Inr subnets \<Rightarrow>
                 ([Call_ParseCIDR cidr, Call_SplitByNumber cidr (HostCount opts)],
                  Inr (map (IPNetString e) subnets)))
          else
            (case IPAddresses e cidr of
               Inl er \<Rightarrow> ([Call_ParseCIDR cidr, Call_IPAddresses cidr], Inl er)
             | Inr ips \<Rightarrow> ([Call_ParseCIDR cidr, Call_IPAddresses cidr], Inr ips)))"

definition process_step :: "Options \<Rightarrow> 'n env \<Rightarrow> state \<Rightarrow> state option" where
  "process_step opts e s =
     (case ppc s of
        P_Range \<Rightarrow> if chancidr_closed s then Some (s\<lparr>ppc := P_Close\<rparr>) else None
      | P_Body cidr \<Rightarrow>
          (case process_body opts e cidr of
             (cs, Inl er) \<Rightarrow> Some (fatal (s\<lparr>calls := calls s @ cs\<rparr>))
           | (cs, Inr rs) \<Rightarrow> Some (s\<lparr>ppc := P_Send rs, calls := calls s @ cs\<rparr>))
      | P_Send rs \<Rightarrow>
          (case rs of
             [] \<Rightarrow> Some (s\<lparr>ppc := P_Range\<rparr>)
           | r # rs' \<Rightarrow> send_outputchan r (P_Send rs') s)
      | P_Close \<Rightarrow>
          if outputchan_closed s then Some (panic s)
          else Some (s\<lparr>ppc := P_Defer, outputchan_closed := True\<rparr>)
      | P_Defer \<Rightarrow> Some (wg_Done (s\<lparr>ppc := P_Done\<rparr>))
      | P_Done \<Rightarrow> None)"

definition newline :: string where
  "newline = [CHR 0x0A]"

definition file_content :: "state \<Rightarrow> string \<Rightarrow> string" where
  "file_content s p = (case files s p of None \<Rightarrow> [] | Some c \<Rightarrow> c)"

text \<open>
  \<^verbatim>\<open>output\<close>. \<^verbatim>\<open>os.Create\<close> truncates the file. \<^verbatim>\<open>gologger.Silentf\<close> writes to
  standard output; the error of \<^verbatim>\<open>f.WriteString\<close> is not looked at. When the loop
  ends the deferred \<^verbatim>\<open>f.Close()\<close> runs, then the deferred \<^verbatim>\<open>wg.Done()\<close>.
\<close>

definition output_step :: "Options \<Rightarrow> 'n env \<Rightarrow> state \<Rightarrow> state option" where
  "output_step opts e s =
     (case opc s of
        O_Create \<Rightarrow>
          if Output opts \<noteq> [] then
            (case Create e (Output opts) of
               Some er \<Rightarrow> Some (fatal (s\<lparr>calls := calls s @ [Call_Create (Output opts)]\<rparr>))
             | None \<Rightarrow>
                 Some (s\<lparr>opc := O_Range, fhandle := Some (Output opts),
                         files := (files s)(Output opts \<mapsto> []),
                         calls := calls s @ [Call_Create (Output opts)]\<rparr>))
          else Some (s\<lparr>opc := O_Range\<rparr>)
      | O_Range \<Rightarrow>
          if outputchan_closed s then Some (s\<lparr>opc := O_Defer, fhandle := None\<rparr>) else None
      | O_Body out \<Rightarrow>
          if out = [] then Some (s\<lparr>opc := O_Range\<rparr>)
          else
            (case fhandle s of
               None \<Rightarrow> Some (s\<lparr>opc := O_Range, stdout := stdout s @ [out @ newline]\<rparr>)
             | Some p \<Rightarrow>
                 Some (s\<lparr>opc := O_Range, stdout := stdout s @ [out @ newline],
                         files := (files s)
                           (p \<mapsto> fst (WriteString e (file_content s p) (out @ newline)))\<rparr>))
      | O_Defer \<Rightarrow> Some (wg_Done (s\<lparr>opc := O_Done\<rparr>))
      | O_Done \<Rightarrow> None)"

text \<open>
  One step of the thread the scheduler picks; nothing moves once the process has
  ended. A run follows a schedule, a thread that is blocked when picked stays put.
\<close>

datatype thread = T_main | T_process | T_output

definition step :: "Options \<Rightarrow> 'n env \<Rightarrow> thread \<Rightarrow> state \<Rightarrow> state option" where
  "step opts e t s =
     (if exit s \<noteq> None then None
      else case t of
        T_main \<Rightarrow> main_step opts e s
      | T_process \<Rightarrow> process_step opts e s
      | T_output \<Rightarrow> output_step opts e s)"

fun run :: "Options \<Rightarrow> 'n env \<Rightarrow> thread list \<Rightarrow> state \<Rightarrow> state" where
  "run opts e [] s = s"
| "run opts e (t # ts) s =
     run opts e ts (case step opts e t s of None \<Rightarrow> s | Some s' \<Rightarrow> s')"

section \<open>Invariants of the pipeline\<close>

subsection \<open>Control: program points, channels, wait group, exit status\<close>

text \<open>
  \<^verbatim>\<open>chancidr\<close> is closed exactly when \<^verbatim>\<open>main\<close> is past its \<^verbatim>\<open>close\<close>; \<^verbatim>\<open>process\<close>
  leaves its loop only when \<^verbatim>\<open>chancidr\<close> is closed; \<^verbatim>\<open>outputchan\<close> is closed
  exactly when \<^verbatim>\<open>process\<close> is past its \<^verbatim>\<open>close\<close>; \<^verbatim>\<open>output\<close> leaves its loop only
  when \<^verbatim>\<open>outputchan\<close> is closed; the wait group counts the goroutines that have not
  called \<^verbatim>\<open>wg.Done()\<close>; the process never panics, and it ends with status 0 exactly
  when \<^verbatim>\<open>main\<close> returns, which needs the counter at 0.
\<close>

definition inv_ctl :: "state \<Rightarrow> bool" where
  "inv_ctl s =
     ((chancidr_closed s = (mpc s = M_Wait \<or> mpc s = M_Return))
      \<and> (ppc s = P_Close \<or> ppc s = P_Defer \<or> ppc s = P_Done \<longrightarrow> chancidr_closed s)
      \<and> (outputchan_closed s = (ppc s = P_Defer \<or> ppc s = P_Done))
      \<and> (opc s = O_Defer \<or> opc s = O_Done \<longrightarrow> outputchan_closed s)
      \<and> wg s = (if ppc s = P_Done then 0 else 1) + (if opc s = O_Done then 0 else 1)
      \<and> (exit s = None \<or> exit s = Some 0 \<or> exit s = Some 1)
      \<and> ((exit s = Some 0) = (mpc s = M_Return))
      \<and> (mpc s = M_Return \<longrightarrow> wg s = 0))"

lemma inv_ctl_start: "inv_ctl (start e)"
  by (simp add: inv_ctl_def start_def)

lemma inv_ctl_main: "inv_ctl s \<Longrightarrow> exit s = None \<Longrightarrow> main_step opts e s = Some s' \<Longrightarrow> inv_ctl s'"
  unfolding main_step_def send_chancidr_def fatal_def panic_def
  apply (cases "mpc s")
  apply (simp_all split: list.splits if_split_asm sum.splits)
  apply (safe)
  apply (simp_all add: inv_ctl_def)
  apply (auto split: if_split_asm)
  done

lemma inv_ctl_process: "inv_ctl s \<Longrightarrow> exit s = None \<Longrightarrow> process_step opts e s = Some s' \<Longrightarrow> inv_ctl s'"
  unfolding process_step_def send_outputchan_def fatal_def panic_def wg_Done_def
  apply (cases "ppc s")
  apply (simp_all split: list.splits if_split_asm sum.splits prod.splits)
  apply (safe)
  apply (simp_all add: inv_ctl_def)
  apply (auto split: if_split_asm)
  done

lemma inv_ctl_output: "inv_ctl s \<Longrightarrow> exit s = None \<Longrightarrow> output_step opts e s = Some s' \<Longrightarrow> inv_ctl s'"
  unfolding output_step_def fatal_def panic_def wg_Done_def
  apply (cases "opc s")
  apply (simp_all split: list.splits if_split_asm sum.splits prod.splits option.splits)
  apply (safe)
  apply (simp_all add: inv_ctl_def)
  apply (auto split: if_split_asm)
  done

lemma step_cases:
  assumes "step opts e t s = Some s'"
  shows "exit s = None \<and>
    (t = T_main \<and> main_step opts e s = Some s'
     \<or> t = T_process \<and> process_step opts e s = Some s'
     \<or> t = T_output \<and> output_step opts e s = Some s')"
  using assms by (cases t) (simp_all add: step_def split: if_split_asm)

lemma inv_ctl_step: "inv_ctl s \<Longrightarrow> step opts e t s = Some s' \<Longrightarrow> inv_ctl s'"
  using step_cases [of opts e t s s'] inv_ctl_main inv_ctl_process inv_ctl_output by blast

lemma run_invariant:
  assumes "I s" and "\<And>s s' t. I s \<Longrightarrow> step opts e t s = Some s' \<Longrightarrow> I s'"
  shows "I (run opts e sched s)"
  using assms(1)
proof (induction sched arbitrary: s)
  case Nil
  then show ?case by simp
next
  case (Cons t ts)
  show ?case
  proof (cases "step opts e t s")
    case None
    with Cons show ?thesis by simp
  next
    case (Some s')
    with Cons.prems assms(2) have "I s'" by blast
    with Cons.IH Some show ?thesis by simp
  qed
qed

lemma inv_ctl_run: "inv_ctl (run opts e sched (start e))"
  by (rule run_invariant [where I = inv_ctl, OF inv_ctl_start inv_ctl_step])

subsection \<open>What \<^verbatim>\<open>main\<close> sends\<close>

text \<open>
  The three sources in the order of the specification: the single CIDR if there is
  one, the lines of standard input if it is a pipe, the lines of the file if a path is
  given (none when the file cannot be opened: the process ends there).
\<close>

definition cidr_source :: "Options \<Rightarrow> string list" where
  "cidr_source opts = (if Cidr opts \<noteq> [] then [Cidr opts] else [])"

definition stdin_source :: "'n env \<Rightarrow> string list" where
  "stdin_source e = (if hasStdin e then StdinScan e else [])"

definition file_source :: "Options \<Rightarrow> 'n env \<Rightarrow> string list" where
  "file_source opts e =
     (if FileCidr opts \<noteq> [] then
        (case OpenScan e (FileCidr opts) of Inl er \<Rightarrow> [] | Inr ls \<Rightarrow> ls)
      else [])"

definition all_sources :: "Options \<Rightarrow> 'n env \<Rightarrow> string list" where
  "all_sources opts e = cidr_source opts @ stdin_source e @ file_source opts e"

text \<open>What \<^verbatim>\<open>main\<close> has still to send, from its program point.\<close>

fun unsent :: "Options \<Rightarrow> 'n env \<Rightarrow> main_pc \<Rightarrow> string list" where
  "unsent opts e M_IfCidr = all_sources opts e"
| "unsent opts e M_IfStdin = stdin_source e @ file_source opts e"
| "unsent opts e (M_ScanStdin ls) = ls @ file_source opts e"
| "unsent opts e M_IfFile = file_source opts e"
| "unsent opts e (M_ScanFile ls) = ls"
| "unsent opts e M_Close = []"
| "unsent opts e M_Wait = []"
| "unsent opts e M_Return = []"

definition inv_in :: "Options \<Rightarrow> 'n env \<Rightarrow> state \<Rightarrow> bool" where
  "inv_in opts e s = (sent s @ unsent opts e (mpc s) = all_sources opts e)"

lemma inv_in_start: "inv_in opts e (start e)"
  by (simp add: inv_in_def start_def)

lemma inv_in_main:
  "inv_in opts e s \<Longrightarrow> main_step opts e s = Some s' \<Longrightarrow> inv_in opts e s'"
  unfolding main_step_def send_chancidr_def fatal_def panic_def
  apply (cases "mpc s")
  apply (simp_all split: list.splits if_split_asm sum.splits)
  apply safe
  apply (simp_all add: inv_in_def all_sources_def cidr_source_def stdin_source_def file_source_def)
  done

lemma inv_in_process:
  "inv_in opts e s \<Longrightarrow> process_step opts e s = Some s' \<Longrightarrow> inv_in opts e s'"
  unfolding process_step_def send_outputchan_def fatal_def panic_def wg_Done_def
  apply (cases "ppc s")
  apply (simp_all split: list.splits if_split_asm sum.splits prod.splits)
  apply safe
  apply (simp_all add: inv_in_def)
  done

lemma inv_in_output:
  "inv_in opts e s \<Longrightarrow> output_step opts e s = Some s' \<Longrightarrow> inv_in opts e s'"
  unfolding output_step_def fatal_def panic_def wg_Done_def
  apply (cases "opc s")
  apply (simp_all split: list.splits if_split_asm sum.splits prod.splits option.splits)
  apply safe
  apply (simp_all add: inv_in_def)
  done

lemma inv_in_step: "inv_in opts e s \<Longrightarrow> step opts e t s = Some s' \<Longrightarrow> inv_in opts e s'"
  using step_cases [of opts e t s s'] inv_in_main inv_in_process inv_in_output by blast

subsection \<open>What \<^verbatim>\<open>process\<close> forwards\<close>

text \<open>
  \<open>results\<close> are the strings the loop body sends for a descriptor (none when it ends
  in a fatal error), \<open>fails\<close> says that it ends in a fatal error. The descriptors
  \<^verbatim>\<open>process\<close> is through with are all those received, but the last one while it is
  in the loop body with it. What was forwarded, followed by what the send loop has
  still to send, is the concatenation of the results of these descriptors, and none
  of them fails.
\<close>

definition results :: "Options \<Rightarrow> 'n env \<Rightarrow> string \<Rightarrow> string list" where
  "results opts e c = (case snd (process_body opts e c) of Inl er \<Rightarrow> [] | Inr rs \<Rightarrow> rs)"

definition fails :: "Options \<Rightarrow> 'n env \<Rightarrow> string \<Rightarrow> bool" where
  "fails opts e c = (case snd (process_body opts e c) of Inl er \<Rightarrow> True | Inr rs \<Rightarrow> False)"

fun handled_at :: "proc_pc \<Rightarrow> string list \<Rightarrow> string list" where
  "handled_at (P_Body c) xs = butlast xs"
| "handled_at P_Range xs = xs"
| "handled_at (P_Send rs) xs = xs"
| "handled_at P_Close xs = xs"
| "handled_at P_Defer xs = xs"
| "handled_at P_Done xs = xs"

fun unforwarded :: "proc_pc \<Rightarrow> string list" where
  "unforwarded (P_Send rs) = rs"
| "unforwarded P_Range = []"
| "unforwarded (P_Body c) = []"
| "unforwarded P_Close = []"
| "unforwarded P_Defer = []"
| "unforwarded P_Done = []"

fun holds_last :: "proc_pc \<Rightarrow> string list \<Rightarrow> bool" where
  "holds_last (P_Body c) xs = (xs \<noteq> [] \<and> last xs = c)"
| "holds_last P_Range xs = True"
| "holds_last (P_Send rs) xs = True"
| "holds_last P_Close xs = True"
| "holds_last P_Defer xs = True"
| "holds_last P_Done xs = True"

definition handled :: "state \<Rightarrow> string list" where
  "handled s = handled_at (ppc s) (sent s)"

definition inv_proc :: "Options \<Rightarrow> 'n env \<Rightarrow> state \<Rightarrow> bool" where
  "inv_proc opts e s =
     (fwd s @ unforwarded (ppc s) = concat (map (results opts e) (handled s))
      \<and> list_all (\<lambda>c. \<not> fails opts e c) (handled s)
      \<and> holds_last (ppc s) (sent s))"

lemma inv_proc_start: "inv_proc opts e (start e)"
  by (simp add: inv_proc_def start_def handled_def)

lemma inv_proc_main:
  "inv_proc opts e s \<Longrightarrow> main_step opts e s = Some s' \<Longrightarrow> inv_proc opts e s'"
  unfolding main_step_def send_chancidr_def fatal_def panic_def
  apply (cases "mpc s")
  apply (simp_all split: list.splits if_split_asm sum.splits)
  apply safe
  apply (simp_all add: inv_proc_def handled_def)
  done

lemma concat_map_last:
  "xs \<noteq> [] \<Longrightarrow> concat (map f xs) = concat (map f (butlast xs)) @ f (last xs)"
  by (induction xs) auto

lemma list_all_last:
  "xs \<noteq> [] \<Longrightarrow> list_all P xs = (list_all P (butlast xs) \<and> P (last xs))"
  by (induction xs) auto

lemma inv_proc_process:
  "inv_proc opts e s \<Longrightarrow> process_step opts e s = Some s' \<Longrightarrow> inv_proc opts e s'"
  unfolding process_step_def send_outputchan_def fatal_def panic_def wg_Done_def
  apply (cases "ppc s")
  apply (simp_all split: list.splits if_split_asm sum.splits prod.splits)
  apply safe
  apply (simp_all add: inv_proc_def handled_def)
  apply (auto simp: concat_map_last list_all_last results_def fails_def)
  done

lemma inv_proc_output:
  "inv_proc opts e s \<Longrightarrow> output_step opts e s = Some s' \<Longrightarrow> inv_proc opts e s'"
  unfolding output_step_def fatal_def panic_def wg_Done_def
  apply (cases "opc s")
  apply (simp_all split: list.splits if_split_asm sum.splits prod.splits option.splits)
  apply safe
  apply (simp_all add: inv_proc_def handled_def)
  done

lemma inv_proc_step: "inv_proc opts e s \<Longrightarrow> step opts e t s = Some s' \<Longrightarrow> inv_proc opts e s'"
  using step_cases [of opts e t s s'] inv_proc_main inv_proc_process inv_proc_output by blast

subsection \<open>What \<^verbatim>\<open>output\<close> prints\<close>

text \<open>
  Standard output holds one line for each record received that is not empty, in the
  order received; the record \<^verbatim>\<open>output\<close> holds in its loop body is not printed yet.
\<close>

fun printed_at :: "out_pc \<Rightarrow> string list \<Rightarrow> string list" where
  "printed_at (O_Body out) rs = butlast rs"
| "printed_at O_Create rs = rs"
| "printed_at O_Range rs = rs"
| "printed_at O_Defer rs = rs"
| "printed_at O_Done rs = rs"

fun holds_record :: "out_pc \<Rightarrow> string list \<Rightarrow> bool" where
  "holds_record (O_Body out) rs = (rs \<noteq> [] \<and> last rs = out)"
| "holds_record O_Create rs = True"
| "holds_record O_Range rs = True"
| "holds_record O_Defer rs = True"
| "holds_record O_Done rs = True"

definition printed :: "state \<Rightarrow> string list" where
  "printed s = printed_at (opc s) (fwd s)"

definition lines_of :: "string list \<Rightarrow> string list" where
  "lines_of rs = map (\<lambda>r. r @ newline) (filter (\<lambda>r. r \<noteq> []) rs)"

definition inv_out :: "state \<Rightarrow> bool" where
  "inv_out s = (stdout s = lines_of (printed s) \<and> holds_record (opc s) (fwd s))"

lemma inv_out_start: "inv_out (start e)"
  by (simp add: inv_out_def start_def printed_def lines_of_def)

lemma inv_out_main:
  "inv_out s \<Longrightarrow> main_step opts e s = Some s' \<Longrightarrow> inv_out s'"
  unfolding main_step_def send_chancidr_def fatal_def panic_def
  apply (cases "mpc s")
  apply (simp_all split: list.splits if_split_asm sum.splits)
  apply safe
  apply (simp_all add: inv_out_def printed_def)
  done

lemma inv_out_process:
  "inv_out s \<Longrightarrow> process_step opts e s = Some s' \<Longrightarrow> inv_out s'"
  unfolding process_step_def send_outputchan_def fatal_def panic_def wg_Done_def
  apply (cases "ppc s")
  apply (simp_all split: list.splits if_split_asm sum.splits prod.splits)
  apply safe
  apply (simp_all add: inv_out_def printed_def)
  done

lemma lines_of_last:
  "rs \<noteq> [] \<Longrightarrow> lines_of rs =
     lines_of (butlast rs) @ (if last rs = [] then [] else [last rs @ newline])"
  by (induction rs) (auto simp: lines_of_def)

lemma inv_out_output:
  "inv_out s \<Longrightarrow> output_step opts e s = Some s' \<Longrightarrow> inv_out s'"
  unfolding output_step_def fatal_def panic_def wg_Done_def
  apply (cases "opc s")
  apply (simp_all split: list.splits if_split_asm sum.splits prod.splits option.splits)
  apply safe
  apply (simp_all add: inv_out_def printed_def)
  apply (auto simp: lines_of_last)
  done

lemma inv_out_step: "inv_out s \<Longrightarrow> step opts e t s = Some s' \<Longrightarrow> inv_out s'"
  using step_cases [of opts e t s s'] inv_out_main inv_out_process inv_out_output by blast

subsection \<open>The output file is created once, before any record is received\<close>

fun is_create :: "call \<Rightarrow> bool" where
  "is_create (Call_Create p) = True"
| "is_create (Call_ParseCIDR c) = False"
| "is_create (Call_SplitN c n) = False"
| "is_create (Call_SplitByNumber c n) = False"
| "is_create (Call_IPAddresses c) = False"

definition creates :: "state \<Rightarrow> call list" where
  "creates s = filter is_create (calls s)"

fun consuming :: "out_pc \<Rightarrow> bool" where
  "consuming O_Range = True"
| "consuming (O_Body out) = True"
| "consuming O_Create = False"
| "consuming O_Defer = False"
| "consuming O_Done = False"

definition inv_create :: "Options \<Rightarrow> 'n env \<Rightarrow> state \<Rightarrow> bool" where
  "inv_create opts e s =
     ((opc s = O_Create \<longrightarrow>
         fwd s = [] \<and> stdout s = [] \<and> fhandle s = None \<and> files s = InitFiles e
         \<and> (creates s = [] \<or>
             creates s = [Call_Create (Output opts)] \<and> exit s = Some 1))
      \<and> (opc s \<noteq> O_Create \<longrightarrow>
         creates s = (if Output opts = [] then [] else [Call_Create (Output opts)]))
      \<and> (consuming (opc s) \<longrightarrow>
         fhandle s = (if Output opts = [] then None else Some (Output opts))))"

lemma inv_create_start: "inv_create opts e (start e)"
  by (simp add: inv_create_def start_def creates_def)

lemma inv_create_main:
  "inv_create opts e s \<Longrightarrow> exit s = None \<Longrightarrow> main_step opts e s = Some s' \<Longrightarrow> inv_create opts e s'"
  unfolding main_step_def send_chancidr_def fatal_def panic_def
  apply (cases "mpc s")
  apply (simp_all split: list.splits if_split_asm sum.splits)
  apply safe
  apply (simp_all add: inv_create_def creates_def)
  done

lemma process_body_no_create:
  "process_body opts e c = (cs, r) \<Longrightarrow> filter is_create cs = []"
  by (auto simp: process_body_def split: option.splits sum.splits if_split_asm)

lemma inv_create_process:
  "inv_create opts e s \<Longrightarrow> exit s = None \<Longrightarrow> process_step opts e s = Some s' \<Longrightarrow> inv_create opts e s'"
  unfolding process_step_def send_outputchan_def fatal_def panic_def wg_Done_def
  apply (cases "ppc s")
  apply (simp_all split: list.splits if_split_asm sum.splits prod.splits)
  apply safe
  apply (simp_all add: inv_create_def creates_def)
  apply (auto simp: process_body_no_create split: if_split_asm)
  done

lemma inv_create_output:
  "inv_create opts e s \<Longrightarrow> exit s = None \<Longrightarrow> output_step opts e s = Some s' \<Longrightarrow> inv_create opts e s'"
  unfolding output_step_def fatal_def panic_def wg_Done_def
  apply (cases "opc s")
  apply (simp_all split: list.splits if_split_asm sum.splits prod.splits option.splits)
  apply safe
  apply (simp_all add: inv_create_def creates_def)
  done

lemma inv_create_step:
  "inv_create opts e s \<Longrightarrow> step opts e t s = Some s' \<Longrightarrow> inv_create opts e s'"
  using step_cases [of opts e t s s'] inv_create_main inv_create_process inv_create_output
  by blast

subsection \<open>Why a process ended with status 1\<close>

text \<open>
  Status 1 has one of three causes: \<^verbatim>\<open>os.Open\<close> failed in \<^verbatim>\<open>main\<close>, the loop body
  of \<^verbatim>\<open>process\<close> failed on the descriptor it holds, or \<^verbatim>\<open>os.Create\<close> failed in
  \<^verbatim>\<open>output\<close>.
\<close>

fun failing_at :: "Options \<Rightarrow> 'n env \<Rightarrow> proc_pc \<Rightarrow> bool" where
  "failing_at opts e (P_Body c) = fails opts e c"
| "failing_at opts e P_Range = False"
| "failing_at opts e (P_Send rs) = False"
| "failing_at opts e P_Close = False"
| "failing_at opts e P_Defer = False"
| "failing_at opts e P_Done = False"

definition open_fails :: "Options \<Rightarrow> 'n env \<Rightarrow> bool" where
  "open_fails opts e = (FileCidr opts \<noteq> [] \<and> isl (OpenScan e (FileCidr opts)))"

definition create_fails :: "Options \<Rightarrow> 'n env \<Rightarrow> bool" where
  "create_fails opts e = (Output opts \<noteq> [] \<and> Create e (Output opts) \<noteq> None)"

definition inv_exit :: "Options \<Rightarrow> 'n env \<Rightarrow> state \<Rightarrow> bool" where
  "inv_exit opts e s =
     (exit s = Some 1 \<longrightarrow>
        open_fails opts e \<and> mpc s = M_IfFile
        \<or> failing_at opts e (ppc s)
        \<or> create_fails opts e \<and> opc s = O_Create)"

lemma inv_exit_start: "inv_exit opts e (start e)"
  by (simp add: inv_exit_def start_def)

lemma inv_exit_main:
  "inv_ctl s \<Longrightarrow> exit s = None \<Longrightarrow> main_step opts e s = Some s' \<Longrightarrow> inv_exit opts e s'"
  unfolding main_step_def send_chancidr_def fatal_def panic_def
  apply (cases "mpc s")
  apply (simp_all split: list.splits if_split_asm sum.splits)
  apply safe
  apply (simp_all add: inv_exit_def inv_ctl_def open_fails_def)
  done

lemma inv_exit_process:
  "inv_ctl s \<Longrightarrow> exit s = None \<Longrightarrow> process_step opts e s = Some s' \<Longrightarrow> inv_exit opts e s'"
  unfolding process_step_def send_outputchan_def fatal_def panic_def wg_Done_def
  apply (cases "ppc s")
  apply (simp_all split: list.splits if_split_asm sum.splits prod.splits)
  apply safe
  apply (simp_all add: inv_exit_def inv_ctl_def fails_def)
  done

lemma inv_exit_output:
  "inv_ctl s \<Longrightarrow> exit s = None \<Longrightarrow> output_step opts e s = Some s' \<Longrightarrow> inv_exit opts e s'"
  unfolding output_step_def fatal_def panic_def wg_Done_def
  apply (cases "opc s")
  apply (simp_all split: list.splits if_split_asm sum.splits prod.splits option.splits)
  apply safe
  apply (simp_all add: inv_exit_def inv_ctl_def create_fails_def)
  done

lemma inv_exit_step:
  "inv_ctl s \<Longrightarrow> step opts e t s = Some s' \<Longrightarrow> inv_exit opts e s'"
  using step_cases [of opts e t s s'] inv_exit_main inv_exit_process inv_exit_output
  by blast

subsection \<open>No deadlock\<close>

text \<open>As long as the process has not ended, one of the three threads can move.\<close>

lemma progress:
  assumes "inv_ctl s" and "exit s = None"
  shows "\<exists>t. step opts e t s \<noteq> None"
proof -
  consider (o) "opc s = O_Create \<or> (\<exists>out. opc s = O_Body out) \<or> opc s = O_Defer"
    | (r) "opc s = O_Range" | (d) "opc s = O_Done"
    by (cases "opc s") auto
  then show ?thesis
  proof cases
    case o
    then have "output_step opts e s \<noteq> None"
      by (auto simp: output_step_def split: option.splits)
    with assms(2) have "step opts e T_output s \<noteq> None" by (simp add: step_def)
    then show ?thesis ..
  next
    case r
    show ?thesis
    proof (cases "ppc s")
      case P_Range
      show ?thesis
      proof (cases "chancidr_closed s")
        case True
        with P_Range assms(2) have "step opts e T_process s \<noteq> None"
          by (simp add: step_def process_step_def)
        then show ?thesis ..
      next
        case False
        with assms(1) have "mpc s \<noteq> M_Wait" "mpc s \<noteq> M_Return"
          by (simp_all add: inv_ctl_def)
        with False P_Range have "main_step opts e s \<noteq> None"
          by (cases "mpc s")
            (simp_all add: main_step_def send_chancidr_def split: list.splits sum.splits)
        with assms(2) have "step opts e T_main s \<noteq> None" by (simp add: step_def)
        then show ?thesis ..
      qed
    next
      case P_Done
      with assms r have "outputchan_closed s" by (simp add: inv_ctl_def)
      with r assms(2) have "step opts e T_output s \<noteq> None"
        by (simp add: step_def output_step_def)
      then show ?thesis ..
    next
      case (P_Body c)
      with assms(2) have "step opts e T_process s \<noteq> None"
        by (simp add: step_def process_step_def split: prod.splits sum.splits)
      then show ?thesis ..
    next
      case (P_Send rs)
      with assms(2) r have "step opts e T_process s \<noteq> None"
        by (simp add: step_def process_step_def send_outputchan_def split: list.splits)
      then show ?thesis ..
    next
      case P_Close
      with assms(2) have "step opts e T_process s \<noteq> None"
        by (simp add: step_def process_step_def)
      then show ?thesis ..
    next
      case P_Defer
      with assms(2) have "step opts e T_process s \<noteq> None"
        by (simp add: step_def process_step_def)
      then show ?thesis ..
    qed
  next
    case d
    show ?thesis
    proof (cases "ppc s = P_Done")
      case True
      with d assms(1) have w: "wg s = 0" and c: "chancidr_closed s"
        by (auto simp: inv_ctl_def)
      from c assms have "mpc s = M_Wait" by (auto simp: inv_ctl_def)
      with w assms(2) have "step opts e T_main s \<noteq> None"
        by (simp add: step_def main_step_def)
      then show ?thesis ..
    next
      case False
      with d assms(1) have "ppc s = P_Defer" by (auto simp: inv_ctl_def)
      with assms(2) have "step opts e T_process s \<noteq> None"
        by (simp add: step_def process_step_def)
      then show ?thesis ..
    qed
  qed
qed

subsection \<open>Every run ends\<close>

text \<open>
  The number of steps a state has at most before it: each descriptor still to send
  costs its send, its loop body, the end of its send loop, and two steps for each
  result (the send and the loop body of \<^verbatim>\<open>output\<close>). Every step makes it smaller, so
  a schedule that lets the three threads move in turn ends the process.
\<close>

definition weight :: "Options \<Rightarrow> 'n env \<Rightarrow> string \<Rightarrow> nat" where
  "weight opts e c = 3 + 2 * length (results opts e c)"

fun main_rank :: "main_pc \<Rightarrow> nat" where
  "main_rank M_IfCidr = 7"
| "main_rank M_IfStdin = 6"
| "main_rank (M_ScanStdin ls) = 5"
| "main_rank M_IfFile = 4"
| "main_rank (M_ScanFile ls) = 3"
| "main_rank M_Close = 2"
| "main_rank M_Wait = 1"
| "main_rank M_Return = 0"

fun proc_rank :: "Options \<Rightarrow> 'n env \<Rightarrow> proc_pc \<Rightarrow> nat" where
  "proc_rank opts e P_Range = 3"
| "proc_rank opts e (P_Body c) = 5 + 2 * length (results opts e c)"
| "proc_rank opts e (P_Send rs) = 4 + 2 * length rs"
| "proc_rank opts e P_Close = 2"
| "proc_rank opts e P_Defer = 1"
| "proc_rank opts e P_Done = 0"

fun out_rank :: "out_pc \<Rightarrow> nat" where
  "out_rank O_Create = 4"
| "out_rank (O_Body out) = 3"
| "out_rank O_Range = 2"
| "out_rank O_Defer = 1"
| "out_rank O_Done = 0"

definition steps_left :: "Options \<Rightarrow> 'n env \<Rightarrow> state \<Rightarrow> nat" where
  "steps_left opts e s =
     (if exit s = None then
        1 + sum_list (map (weight opts e) (unsent opts e (mpc s))) + main_rank (mpc s)
          + proc_rank opts e (ppc s) + out_rank (opc s)
      else 0)"

lemma steps_left_main:
  "exit s = None \<Longrightarrow> main_step opts e s = Some s' \<Longrightarrow> steps_left opts e s' < steps_left opts e s"
  unfolding main_step_def send_chancidr_def fatal_def panic_def
  apply (cases "mpc s")
  apply (simp_all split: list.splits if_split_asm sum.splits)
  apply safe
  apply (simp_all add: steps_left_def weight_def all_sources_def cidr_source_def
      stdin_source_def file_source_def)
  done

lemma steps_left_process:
  "exit s = None \<Longrightarrow> process_step opts e s = Some s' \<Longrightarrow> steps_left opts e s' < steps_left opts e s"
  unfolding process_step_def send_outputchan_def fatal_def panic_def wg_Done_def
  apply (cases "ppc s")
  apply (simp_all split: list.splits if_split_asm sum.splits prod.splits)
  apply safe
  apply (simp_all add: steps_left_def results_def)
  done

lemma steps_left_output:
  "exit s = None \<Longrightarrow> output_step opts e s = Some s' \<Longrightarrow> steps_left opts e s' < steps_left opts e s"
  unfolding output_step_def fatal_def panic_def wg_Done_def
  apply (cases "opc s")
  apply (simp_all split: list.splits if_split_asm sum.splits prod.splits option.splits)
  apply safe
  apply (simp_all add: steps_left_def)
  done

lemma steps_left_step:
  "step opts e t s = Some s' \<Longrightarrow> steps_left opts e s' < steps_left opts e s"
  using step_cases [of opts e t s s'] steps_left_main steps_left_process steps_left_output
  by blast

lemma run_append: "run opts e (xs @ ys) s = run opts e ys (run opts e xs s)"
  by (induction xs arbitrary: s) simp_all

lemma run_exited: "exit s \<noteq> None \<Longrightarrow> run opts e sched s = s"
  by (induction sched) (simp_all add: step_def)

lemma steps_left_run: "steps_left opts e (run opts e sched s) \<le> steps_left opts e s"
proof (induction sched arbitrary: s)
  case Nil
  show ?case by simp
next
  case (Cons t ts)
  show ?case
  proof (cases "step opts e t s")
    case None
    with Cons show ?thesis by simp
  next
    case (Some s')
    then have "steps_left opts e s' < steps_left opts e s" by (rule steps_left_step)
    moreover have "steps_left opts e (run opts e ts s') \<le> steps_left opts e s'"
      by (rule Cons.IH)
    ultimately show ?thesis using Some by simp
  qed
qed

definition one_round :: "thread list" where
  "one_round = [T_main, T_process, T_output]"

lemma round_decreases:
  assumes "inv_ctl s" and "exit s = None"
  shows "steps_left opts e (run opts e one_round s) < steps_left opts e s"
proof -
  from assms obtain t where t: "step opts e t s \<noteq> None"
    using progress by blast
  show ?thesis
  proof (cases "step opts e T_main s")
    case (Some s1)
    have "steps_left opts e (run opts e [T_process, T_output] s1) \<le> steps_left opts e s1"
      by (rule steps_left_run)
    with steps_left_step [OF Some] Some show ?thesis by (simp add: one_round_def)
  next
    case m: None
    show ?thesis
    proof (cases "step opts e T_process s")
      case (Some s1)
      have "steps_left opts e (run opts e [T_output] s1) \<le> steps_left opts e s1"
        by (rule steps_left_run)
      with steps_left_step [OF Some] Some m show ?thesis by (simp add: one_round_def)
    next
      case p: None
      from t m p obtain s1 where o: "step opts e T_output s = Some s1"
        by (cases t) auto
      with steps_left_step [OF o] m p show ?thesis by (simp add: one_round_def)
    qed
  qed
qed

definition round_robin :: "nat \<Rightarrow> thread list" where
  "round_robin n = concat (replicate n one_round)"

lemma round_robin_ends:
  assumes "inv_ctl s" and "steps_left opts e s \<le> n"
  shows "exit (run opts e (round_robin n) s) \<noteq> None"
  using assms
proof (induction n arbitrary: s)
  case 0
  then show ?case by (simp add: steps_left_def round_robin_def split: if_split_asm)
next
  case (Suc n)
  show ?case
  proof (cases "exit s = None")
    case False
    then show ?thesis by (simp add: run_exited)
  next
    case True
    let ?s1 = "run opts e one_round s"
    from Suc.prems(1) have i: "inv_ctl ?s1"
      by (rule run_invariant [where I = inv_ctl]) (rule inv_ctl_step)
    from round_decreases [OF Suc.prems(1) True, where opts = opts and e = e] Suc.prems(2)
    have "steps_left opts e ?s1 \<le> n" by simp
    with i have "exit (run opts e (round_robin n) ?s1) \<noteq> None" by (rule Suc.IH)
    then show ?thesis by (simp add: round_robin_def run_append)
  qed
qed

section \<open>Reachable states\<close>

lemma inv_ctl_exit_step:
  "inv_ctl s \<and> inv_exit opts e s \<Longrightarrow> step opts e t s = Some s'
   \<Longrightarrow> inv_ctl s' \<and> inv_exit opts e s'"
  using inv_ctl_step inv_exit_step by blast

lemma inv_exit_run: "inv_exit opts e (run opts e sched (start e))"
proof -
  have "inv_ctl (start e) \<and> inv_exit opts e (start e)"
    by (simp add: inv_ctl_start inv_exit_start)
  then have "inv_ctl (run opts e sched (start e)) \<and> inv_exit opts e (run opts e sched (start e))"
    by (rule run_invariant [where I = "\<lambda>s. inv_ctl s \<and> inv_exit opts e s"])
      (rule inv_ctl_exit_step)
  then show ?thesis ..
qed

lemma inv_in_run: "inv_in opts e (run opts e sched (start e))"
  by (rule run_invariant [where I = "inv_in opts e", OF inv_in_start inv_in_step])

lemma inv_proc_run: "inv_proc opts e (run opts e sched (start e))"
  by (rule run_invariant [where I = "inv_proc opts e", OF inv_proc_start inv_proc_step])

lemma inv_out_run: "inv_out (run opts e sched (start e))"
  by (rule run_invariant [where I = inv_out, OF inv_out_start inv_out_step])

lemma inv_create_run: "inv_create opts e (run opts e sched (start e))"
  by (rule run_invariant [where I = "inv_create opts e", OF inv_create_start inv_create_step])

section \<open>The selection of the transformation\<close>

text \<open>
  The selection as the specification words it: a positive subnet count asks for the
  equal split into that many subnets; otherwise a positive host count asks for the
  split by host capacity; otherwise every address is enumerated.
\<close>

datatype transformation = EqualSplit int | HostCapacitySplit int | FullEnumeration

definition selected :: "Options \<Rightarrow> transformation" where
  "selected opts =
     (if Slices opts > 0 then EqualSplit (Slices opts)
      else if HostCount opts > 0 then HostCapacitySplit (HostCount opts)
      else FullEnumeration)"

fun text_form :: "'n env \<Rightarrow> err + 'n list \<Rightarrow> err + string list" where
  "text_form e (Inl er) = Inl er"
| "text_form e (Inr subnets) = Inr (map (IPNetString e) subnets)"

fun invoke :: "'n env \<Rightarrow> transformation \<Rightarrow> string \<Rightarrow> err + string list" where
  "invoke e (EqualSplit n) c = text_form e (SplitN e c n)"
| "invoke e (HostCapacitySplit n) c = text_form e (SplitByNumber e c n)"
| "invoke e FullEnumeration c = IPAddresses e c"

fun call_of :: "transformation \<Rightarrow> string \<Rightarrow> call" where
  "call_of (EqualSplit n) c = Call_SplitN c n"
| "call_of (HostCapacitySplit n) c = Call_SplitByNumber c n"
| "call_of FullEnumeration c = Call_IPAddresses c"

lemma process_body_parse_error:
  "ParseCIDR e c = Some er \<Longrightarrow> process_body opts e c = ([Call_ParseCIDR c], Inl er)"
  by (simp add: process_body_def)

lemma process_body_selected:
  "ParseCIDR e c = None \<Longrightarrow>
   process_body opts e c =
     ([Call_ParseCIDR c, call_of (selected opts) c], invoke e (selected opts) c)"
  by (simp add: process_body_def selected_def split: sum.splits)

lemma fails_iff:
  "fails opts e c = (ParseCIDR e c \<noteq> None \<or> isl (invoke e (selected opts) c))"
proof (cases "ParseCIDR e c")
  case None
  then show ?thesis
    by (simp add: fails_def process_body_selected split: sum.splits)
next
  case (Some er)
  then show ?thesis by (simp add: fails_def process_body_parse_error)
qed

lemma results_selected:
  "results opts e c =
     (case ParseCIDR e c of
        Some er \<Rightarrow> []
      | None \<Rightarrow> (case invoke e (selected opts) c of Inl er \<Rightarrow> [] | Inr rs \<Rightarrow> rs))"
  by (simp add: results_def process_body_selected process_body_parse_error split: option.splits)

text \<open>
  What the selected transformation returned for a descriptor, in text form, as the
  specification words it: nothing when the descriptor does not parse or the
  transformation returns an error.
\<close>

definition returned :: "Options \<Rightarrow> 'n env \<Rightarrow> string \<Rightarrow> string list" where
  "returned opts e c =
     (case ParseCIDR e c of
        Some er \<Rightarrow> []
      | None \<Rightarrow> (case invoke e (selected opts) c of Inl er \<Rightarrow> [] | Inr rs \<Rightarrow> rs))"

lemma results_returned: "results opts e = returned opts e"
  by (rule ext) (simp add: results_selected returned_def)

text \<open>
  A descriptor is rejected when it does not parse or the selected transformation
  returns an error.
\<close>

definition rejected :: "Options \<Rightarrow> 'n env \<Rightarrow> string \<Rightarrow> bool" where
  "rejected opts e c = (ParseCIDR e c \<noteq> None \<or> isl (invoke e (selected opts) c))"

lemma fails_rejected: "fails opts e = rejected opts e"
  by (rule ext) (simp add: fails_iff rejected_def)

definition nothing_fails :: "Options \<Rightarrow> 'n env \<Rightarrow> bool" where
  "nothing_fails opts e =
     (\<not> open_fails opts e \<and> \<not> create_fails opts e
      \<and> list_all (\<lambda>c. \<not> rejected opts e c) (all_sources opts e))"

section \<open>Consequences of the invariants\<close>

text \<open>The test of \<^verbatim>\<open>hasStdin\<close> reads bit 25 of the mode.\<close>

lemma named_pipe_bit: "(mode AND ModeNamedPipe = 0) = (\<not> bit mode 25)"
  for mode :: "32 word"
proof -
  have "ModeNamedPipe = (2 :: 32 word) ^ 25" by (simp add: ModeNamedPipe_def)
  then have "(mode AND ModeNamedPipe = 0) = (mode AND 2 ^ 25 = 0)" by (simp only:)
  also have "\<dots> = (\<not> bit mode 25)" by (rule and_exp_eq_0_iff_not_bit)
  finally show ?thesis .
qed

lemma hasStdin_bit: "hasStdin e = (\<exists>mode. StdinStat e = Inr mode \<and> bit mode 25)"
  by (cases "StdinStat e") (simp_all add: hasStdin_def named_pipe_bit)

text \<open>
  What was sent, handled, forwarded and printed are prefixes of one another's
  sources; a process that ended with status 0 is through with everything.
\<close>

lemma sent_prefix_all_sources:
  "prefix (sent (run opts e sched (start e))) (all_sources opts e)"
  using inv_in_run [of opts e sched] by (metis inv_in_def prefixI)

lemma handled_at_prefix: "prefix (handled_at pc xs) xs"
  by (cases pc) (simp_all add: prefixeq_butlast)

lemma printed_at_prefix: "prefix (printed_at pc rs) rs"
  by (cases pc) (simp_all add: prefixeq_butlast)

lemma lines_of_prefix: "prefix xs ys \<Longrightarrow> prefix (lines_of xs) (lines_of ys)"
  by (auto simp: lines_of_def prefix_def)

lemma concat_map_prefix: "prefix xs ys \<Longrightarrow> prefix (concat (map f xs)) (concat (map f ys))"
  by (auto simp: prefix_def)

lemma handled_prefix_all_sources:
  "prefix (handled (run opts e sched (start e))) (all_sources opts e)"
  using handled_at_prefix sent_prefix_all_sources
  unfolding handled_def by (rule prefix_order.trans)

lemma exit_0_all_done:
  assumes "inv_ctl s" and "exit s = Some 0"
  shows "mpc s = M_Return \<and> ppc s = P_Done \<and> opc s = O_Done
     \<and> chancidr_closed s \<and> outputchan_closed s \<and> wg s = 0"
proof -
  from assms have m: "mpc s = M_Return" unfolding inv_ctl_def by blast
  with assms(1) have w: "wg s = 0" unfolding inv_ctl_def by blast
  from assms(1) have "wg s = (if ppc s = P_Done then 0 else 1) + (if opc s = O_Done then 0 else 1)"
    unfolding inv_ctl_def by blast
  with w have p: "ppc s = P_Done" and o: "opc s = O_Done"
    by (simp_all split: if_split_asm)
  from assms(1) m p have "chancidr_closed s" "outputchan_closed s"
    unfolding inv_ctl_def by blast+
  with m w p o show ?thesis by simp
qed

lemma closed_all_sent:
  assumes "inv_ctl s" and "inv_in opts e s" and "chancidr_closed s"
  shows "sent s = all_sources opts e"
proof -
  from assms(1,3) have "mpc s = M_Wait \<or> mpc s = M_Return" unfolding inv_ctl_def by blast
  then have "unsent opts e (mpc s) = []" by auto
  with assms(2) show ?thesis by (simp add: inv_in_def)
qed

text \<open>A descriptor that fails is the last one received, and its step is fatal.\<close>

lemma failing_received_last:
  assumes "inv_proc opts e s" and "sent s = xs @ c # ys" and "fails opts e c"
  shows "ys = [] \<and> ppc s = P_Body c \<and> fwd s = concat (map (results opts e) xs)"
proof -
  from assms(1) have f: "fwd s @ unforwarded (ppc s) = concat (map (results opts e) (handled s))"
    and a: "list_all (\<lambda>c. \<not> fails opts e c) (handled s)"
    and l: "holds_last (ppc s) (sent s)"
    by (simp_all add: inv_proc_def)
  from a assms(3) have n: "c \<notin> set (handled s)" by (auto simp: list_all_iff)
  have "\<exists>c'. ppc s = P_Body c'"
  proof (rule ccontr)
    assume "\<not> (\<exists>c'. ppc s = P_Body c')"
    then have "handled s = sent s" by (cases "ppc s") (simp_all add: handled_def)
    with n assms(2) show False by simp
  qed
  then obtain c' where b: "ppc s = P_Body c'" ..
  with n have n': "c \<notin> set (butlast (sent s))" by (simp add: handled_def)
  have y: "ys = []"
  proof (rule ccontr)
    assume "ys \<noteq> []"
    then have "butlast (xs @ c # ys) = xs @ c # butlast ys" by (simp add: butlast_append)
    with n' assms(2) show False by simp
  qed
  with l b assms(2) have "c' = c" by simp
  moreover from y assms(2) b have "handled s = xs" by (simp add: handled_def)
  ultimately show ?thesis using y b f by simp
qed

lemma body_step_fatal:
  assumes "exit s = None" and "ppc s = P_Body c" and "fails opts e c"
  shows "\<exists>s'. step opts e T_process s = Some s' \<and> exit s' = Some 1
     \<and> calls s' = calls s @ fst (process_body opts e c)
     \<and> sent s' = sent s \<and> fwd s' = fwd s \<and> stdout s' = stdout s"
  using assms
  by (cases "process_body opts e c")
    (auto simp: step_def process_step_def fails_def fatal_def split: sum.splits)

text \<open>What was sent only grows.\<close>

lemma sent_main: "main_step opts e s = Some s' \<Longrightarrow> prefix (sent s) (sent s')"
  unfolding main_step_def send_chancidr_def fatal_def panic_def
  apply (cases "mpc s")
  apply (simp_all split: list.splits if_split_asm sum.splits)
  apply safe
  apply simp_all
  done

lemma sent_process: "process_step opts e s = Some s' \<Longrightarrow> prefix (sent s) (sent s')"
  unfolding process_step_def send_outputchan_def fatal_def panic_def wg_Done_def
  apply (cases "ppc s")
  apply (simp_all split: list.splits if_split_asm sum.splits prod.splits)
  apply safe
  apply simp_all
  done

lemma sent_output: "output_step opts e s = Some s' \<Longrightarrow> prefix (sent s) (sent s')"
  unfolding output_step_def fatal_def panic_def wg_Done_def
  apply (cases "opc s")
  apply (simp_all split: list.splits if_split_asm sum.splits prod.splits option.splits)
  apply safe
  apply simp_all
  done

lemma sent_step: "step opts e t s = Some s' \<Longrightarrow> prefix (sent s) (sent s')"
  using step_cases [of opts e t s s'] sent_main sent_process sent_output by blast

lemma sent_run: "prefix (sent s) (sent (run opts e sched s))"
proof (induction sched arbitrary: s)
  case Nil
  show ?case by simp
next
  case (Cons t ts)
  show ?case
  proof (cases "step opts e t s")
    case None
    with Cons show ?thesis by simp
  next
    case (Some s')
    then have "prefix (sent s) (sent s')" by (rule sent_step)
    also have "prefix (sent s') (sent (run opts e ts s'))" by (rule Cons.IH)
    finally show ?thesis using Some by simp
  qed
qed

lemma exit_values:
  "exit (run opts e sched (start e)) = None
   \<or> exit (run opts e sched (start e)) = Some 0
   \<or> exit (run opts e sched (start e)) = Some 1"
  using inv_ctl_run [of opts e sched] unfolding inv_ctl_def by blast

lemma chancidr_closed_iff:
  "inv_ctl s \<Longrightarrow> chancidr_closed s = (mpc s = M_Wait \<or> mpc s = M_Return)"
  unfolding inv_ctl_def by blast

lemma outputchan_closed_iff:
  "inv_ctl s \<Longrightarrow> outputchan_closed s = (ppc s = P_Defer \<or> ppc s = P_Done)"
  unfolding inv_ctl_def by blast

lemma no_failure_ends_0:
  assumes "s = run opts e sched (start e)"
    and "\<not> open_fails opts e" and "\<not> create_fails opts e"
    and "\<forall>c \<in> set (all_sources opts e). \<not> fails opts e c"
  shows "exit s \<noteq> Some 1"
proof
  assume x: "exit s = Some 1"
  have "inv_exit opts e s" and p: "inv_proc opts e s"
    unfolding assms(1) by (rule inv_exit_run, rule inv_proc_run)
  with x assms(2,3) have "failing_at opts e (ppc s)" by (auto simp: inv_exit_def)
  then obtain c where b: "ppc s = P_Body c" and f: "fails opts e c"
    by (cases "ppc s") simp_all
  from p b have "sent s \<noteq> []" and "last (sent s) = c" by (simp_all add: inv_proc_def)
  then have "c \<in> set (sent s)" using last_in_set by blast
  moreover have "set (sent s) \<subseteq> set (all_sources opts e)"
    using sent_prefix_all_sources [of opts e sched] unfolding assms(1) by (rule set_mono_prefix)
  ultimately show False using f assms(4) by blast
qed

lemma newline_not_printed:
  assumes "inv_out s"
  shows "newline \<notin> set (stdout s)"
proof
  assume "newline \<in> set (stdout s)"
  with assms obtain r where "r \<noteq> []" and "newline = r @ newline"
    by (auto simp: inv_out_def lines_of_def)
  then show False by (cases r) (simp_all add: newline_def)
qed

lemma in_flight_descriptor: "length xs \<le> Suc (length (handled_at pc xs))"
  by (cases pc) simp_all

lemma in_flight_record: "length rs \<le> Suc (length (printed_at pc rs))"
  by (cases pc) simp_all

text \<open>
  Without a failure the run that lets the threads move in turn ends with status 0,
  with everything sent, forwarded and printed.
\<close>

lemma round_robin_completes:
  assumes "s = run opts e sched (start e)"
    and "\<not> open_fails opts e" and "\<not> create_fails opts e"
    and "\<forall>c \<in> set (all_sources opts e). \<not> fails opts e c"
  shows "exit (run opts e (round_robin (steps_left opts e s)) s) = Some 0
     \<and> chancidr_closed (run opts e (round_robin (steps_left opts e s)) s)
     \<and> sent (run opts e (round_robin (steps_left opts e s)) s) = all_sources opts e
     \<and> fwd (run opts e (round_robin (steps_left opts e s)) s) =
         concat (map (results opts e) (all_sources opts e))
     \<and> stdout (run opts e (round_robin (steps_left opts e s)) s) =
         lines_of (concat (map (results opts e) (all_sources opts e)))"
proof -
  let ?r = "round_robin (steps_left opts e s)"
  let ?t = "run opts e ?r s"
  have reach: "?t = run opts e (sched @ ?r) (start e)"
    by (simp add: assms(1) run_append)
  have c: "inv_ctl ?t" and i: "inv_in opts e ?t" and p: "inv_proc opts e ?t" and o: "inv_out ?t"
    unfolding reach by (rule inv_ctl_run, rule inv_in_run, rule inv_proc_run, rule inv_out_run)
  have "inv_ctl s" unfolding assms(1) by (rule inv_ctl_run)
  then have "exit ?t \<noteq> None" by (rule round_robin_ends) simp
  moreover have "exit ?t \<noteq> Some 1"
    using no_failure_ends_0 [OF reach assms(2,3,4)] .
  ultimately have x: "exit ?t = Some 0"
    using exit_values [of opts e "sched @ ?r"] unfolding reach by auto
  from exit_0_all_done [OF c x] have d: "ppc ?t = P_Done" "opc ?t = O_Done"
    and cl: "chancidr_closed ?t" by simp_all
  from closed_all_sent [OF c i cl] have a: "sent ?t = all_sources opts e" .
  from d(1) a have "handled ?t = all_sources opts e" by (simp add: handled_def)
  with p d(1) have f: "fwd ?t = concat (map (results opts e) (all_sources opts e))"
    by (simp add: inv_proc_def)
  from o d(2) have "stdout ?t = lines_of (fwd ?t)" by (simp add: inv_out_def printed_def)
  with f have l: "stdout ?t = lines_of (concat (map (results opts e) (all_sources opts e)))"
    by simp
  from x cl a f l show ?thesis by (intro conjI)
qed

lemma nothing_fails_completes:
  assumes "s = run opts e sched (start e)" and "nothing_fails opts e"
  shows "exit (run opts e (round_robin (steps_left opts e s)) s) = Some 0
     \<and> chancidr_closed (run opts e (round_robin (steps_left opts e s)) s)
     \<and> sent (run opts e (round_robin (steps_left opts e s)) s) = all_sources opts e
     \<and> stdout (run opts e (round_robin (steps_left opts e s)) s) =
         lines_of (concat (map (returned opts e) (all_sources opts e)))"
proof -
  from assms(2) have o: "\<not> open_fails opts e" and c: "\<not> create_fails opts e"
    and f: "\<forall>c \<in> set (all_sources opts e). \<not> fails opts e c"
    by (simp_all add: nothing_fails_def fails_rejected list_all_iff)
  from round_robin_completes [OF assms(1) o c f] show ?thesis
    by (simp add: results_returned)
qed

text \<open>The sends of \<^verbatim>\<open>main\<close>, when \<^verbatim>\<open>process\<close> waits at its receive.\<close>

lemma main_sends:
  assumes "inv_ctl s" and "exit s = None" and "ppc s = P_Range"
  shows "(mpc s = M_IfCidr \<and> Cidr opts \<noteq> [] \<longrightarrow>
            step opts e T_main s =
              Some (s\<lparr>mpc := M_IfStdin, ppc := P_Body (Cidr opts), sent := sent s @ [Cidr opts]\<rparr>))
     \<and> (mpc s = M_ScanStdin (l # ls) \<longrightarrow>
            step opts e T_main s =
              Some (s\<lparr>mpc := M_ScanStdin ls, ppc := P_Body l, sent := sent s @ [l]\<rparr>))
     \<and> (mpc s = M_ScanFile (l # ls) \<longrightarrow>
            step opts e T_main s =
              Some (s\<lparr>mpc := M_ScanFile ls, ppc := P_Body l, sent := sent s @ [l]\<rparr>))"
proof -
  have n: "mpc s = M_IfCidr \<or> mpc s = M_ScanStdin (l # ls) \<or> mpc s = M_ScanFile (l # ls)
      \<Longrightarrow> \<not> chancidr_closed s"
    by (auto simp: chancidr_closed_iff [OF assms(1)])
  have 1: "mpc s = M_IfCidr \<and> Cidr opts \<noteq> [] \<longrightarrow>
            step opts e T_main s =
              Some (s\<lparr>mpc := M_IfStdin, ppc := P_Body (Cidr opts), sent := sent s @ [Cidr opts]\<rparr>)"
    using n assms(2,3) by (simp add: step_def main_step_def send_chancidr_def)
  have 2: "mpc s = M_ScanStdin (l # ls) \<longrightarrow>
            step opts e T_main s =
              Some (s\<lparr>mpc := M_ScanStdin ls, ppc := P_Body l, sent := sent s @ [l]\<rparr>)"
    using n assms(2,3) by (simp add: step_def main_step_def send_chancidr_def)
  have 3: "mpc s = M_ScanFile (l # ls) \<longrightarrow>
            step opts e T_main s =
              Some (s\<lparr>mpc := M_ScanFile ls, ppc := P_Body l, sent := sent s @ [l]\<rparr>)"
    using n assms(2,3) by (simp add: step_def main_step_def send_chancidr_def)
  from 1 2 3 show ?thesis by (intro conjI)
qed

subsection \<open>The content of the output file\<close>

text \<open>
  When every \<^verbatim>\<open>WriteString\<close> appends its data, the created file holds what was
  printed.
\<close>

definition inv_file :: "Options \<Rightarrow> state \<Rightarrow> bool" where
  "inv_file opts s =
     (opc s \<noteq> O_Create \<and> Output opts \<noteq> [] \<longrightarrow>
        files s (Output opts) = Some (concat (stdout s)))"

lemma inv_file_start: "inv_file opts (start e)"
  by (simp add: inv_file_def start_def)

lemma inv_file_main:
  "inv_file opts s \<Longrightarrow> main_step opts e s = Some s' \<Longrightarrow> inv_file opts s'"
  unfolding main_step_def send_chancidr_def fatal_def panic_def
  apply (cases "mpc s")
  apply (simp_all split: list.splits if_split_asm sum.splits)
  apply safe
  apply (simp_all add: inv_file_def)
  done

lemma inv_file_process:
  "inv_file opts s \<Longrightarrow> process_step opts e s = Some s' \<Longrightarrow> inv_file opts s'"
  unfolding process_step_def send_outputchan_def fatal_def panic_def wg_Done_def
  apply (cases "ppc s")
  apply (simp_all split: list.splits if_split_asm sum.splits prod.splits)
  apply safe
  apply (simp_all add: inv_file_def)
  done

lemma inv_file_output:
  assumes "\<forall>c d. fst (WriteString e c d) = c @ d"
  shows "inv_file opts s \<Longrightarrow> inv_create opts e s \<Longrightarrow> output_step opts e s = Some s'
    \<Longrightarrow> inv_file opts s'"
  unfolding output_step_def fatal_def panic_def wg_Done_def
  apply (cases "opc s")
  apply (simp_all split: list.splits if_split_asm sum.splits prod.splits option.splits)
  apply safe
  apply (simp_all add: inv_file_def inv_create_def assms file_content_def)
  apply (auto split: if_split_asm)
  done

lemma inv_file_step:
  assumes "\<forall>c d. fst (WriteString e c d) = c @ d"
  shows "inv_create opts e s \<and> inv_file opts s \<Longrightarrow> step opts e t s = Some s'
    \<Longrightarrow> inv_create opts e s' \<and> inv_file opts s'"
  using step_cases [of opts e t s s'] inv_file_main inv_file_process
    inv_file_output [OF assms] inv_create_step
  by blast

lemma inv_file_run:
  assumes "\<forall>c d. fst (WriteString e c d) = c @ d"
  shows "inv_file opts (run opts e sched (start e))"
proof -
  have "inv_create opts e (start e) \<and> inv_file opts (start e)"
    by (simp add: inv_create_start inv_file_start)
  then have "inv_create opts e (run opts e sched (start e))
      \<and> inv_file opts (run opts e sched (start e))"
    by (rule run_invariant [where I = "\<lambda>s. inv_create opts e s \<and> inv_file opts s"])
      (rule inv_file_step [OF assms])
  then show ?thesis ..
qed

section \<open>The line scanner\<close>

text \<open>
  \<^verbatim>\<open>bufio.Scanner\<close> with its default split function \<^verbatim>\<open>ScanLines\<close>, on the bytes of a
  stream that is read to its end: a token is a line without its newline and without
  one carriage return before it; the last line counts also without a newline, when
  it is not empty. The buffer holds at most \<^verbatim>\<open>MaxScanTokenSize\<close> bytes, so at a line
  of that many bytes or more \<^verbatim>\<open>Scan\<close> returns false (the error is \<^verbatim>\<open>ErrTooLong\<close>) and
  the loop of \<^verbatim>\<open>main\<close>, which looks at no error, ends.
\<close>

definition MaxScanTokenSize :: nat where
  "MaxScanTokenSize = 64 * 1024"

definition dropCR :: "string \<Rightarrow> string" where
  "dropCR data = (if data \<noteq> [] \<and> last data = CHR 0x0D then butlast data else data)"

function ScanLines :: "string \<Rightarrow> string list" where
  "ScanLines data =
     (if data = [] then []
      else if MaxScanTokenSize \<le> length (takeWhile (\<lambda>c. c \<noteq> CHR 0x0A) data) then []
      else if dropWhile (\<lambda>c. c \<noteq> CHR 0x0A) data = [] then [dropCR data]
      else dropCR (takeWhile (\<lambda>c. c \<noteq> CHR 0x0A) data)
             # ScanLines (tl (dropWhile (\<lambda>c. c \<noteq> CHR 0x0A) data)))"
  by pat_completeness auto
termination
proof (relation "measure length")
  show "wf (measure length)" by simp
next
  fix data :: string
  assume "dropWhile (\<lambda>c. c \<noteq> CHR 0x0A) data \<noteq> []"
  then have "length (tl (dropWhile (\<lambda>c. c \<noteq> CHR 0x0A) data))
      < length (dropWhile (\<lambda>c. c \<noteq> CHR 0x0A) data)" by simp
  also have "\<dots> \<le> length data" by (rule length_dropWhile_le)
  finally show "(tl (dropWhile (\<lambda>c. c \<noteq> CHR 0x0A) data), data) \<in> measure length" by simp
qed

declare ScanLines.simps [simp del]

lemma takeWhile_line:
  "CHR 0x0A \<notin> set line \<Longrightarrow>
   takeWhile (\<lambda>c. c \<noteq> CHR 0x0A) (line @ CHR 0x0A # rest) = line"
  by (induction line) auto

lemma dropWhile_line:
  "CHR 0x0A \<notin> set line \<Longrightarrow>
   dropWhile (\<lambda>c. c \<noteq> CHR 0x0A) (line @ CHR 0x0A # rest) = CHR 0x0A # rest"
  by (induction line) auto

lemma ScanLines_line:
  assumes "CHR 0x0A \<notin> set line" and "length line < MaxScanTokenSize"
  shows "ScanLines (line @ CHR 0x0A # rest) = dropCR line # ScanLines rest"
proof -
  note t = takeWhile_line [OF assms(1), of rest]
  note d = dropWhile_line [OF assms(1), of rest]
  show ?thesis
    using assms(2) by (subst ScanLines.simps) (simp add: t d)
qed

lemma ScanLines_too_long:
  assumes "CHR 0x0A \<notin> set line" and "MaxScanTokenSize \<le> length line"
  shows "ScanLines (line @ CHR 0x0A # rest) = []"
proof -
  note t = takeWhile_line [OF assms(1), of rest]
  show ?thesis
    using assms(2) by (subst ScanLines.simps) (simp add: t)
qed

lemma ScanLines_empty: "ScanLines [] = []"
  by (subst ScanLines.simps) simp

lemma ScanLines_last_line:
  assumes "CHR 0x0A \<notin> set line" and "line \<noteq> []" and "length line < MaxScanTokenSize"
  shows "ScanLines line = [dropCR line]"
proof -
  from assms(1) have t: "takeWhile (\<lambda>c. c \<noteq> CHR 0x0A) line = line"
    by (induction line) auto
  from assms(1) have d: "dropWhile (\<lambda>c. c \<noteq> CHR 0x0A) line = []"
    by (induction line) auto
  show ?thesis
    using assms(2,3) by (subst ScanLines.simps) (simp add: t d)
qed

section \<open>An example environment\<close>

text \<open>
  A stub of the library that knows three networks and rejects every other string, with
  standard input a pipe that holds a malformed line between two networks, a list file
  \<^verbatim>\<open>list.txt\<close>, and a file \<^verbatim>\<open>out.txt\<close> that exists before the run. The theorems hold in
  every environment; this one serves for the concrete runs.
\<close>

definition example_env :: "string env" where
  "example_env =
     \<lparr>ParseCIDR =
        (\<lambda>c. if c = ''192.168.0.0/30'' \<or> c = ''10.0.0.0/24'' \<or> c = ''10.0.0.0/31'' then None
             else Some (''invalid CIDR address: '' @ c)),
      SplitN =
        (\<lambda>c n. if c = ''10.0.0.0/24'' \<and> n = 4
               then Inr [''10.0.0.0/26'', ''10.0.0.64/26'', ''10.0.0.128/26'', ''10.0.0.192/26'']
               else Inl ''cannot split''),
      SplitByNumber = (\<lambda>c n. Inl ''cannot split''),
      IPAddresses =
        (\<lambda>c. if c = ''192.168.0.0/30''
             then Inr [''192.168.0.0'', ''192.168.0.1'', ''192.168.0.2'', ''192.168.0.3'']
             else if c = ''10.0.0.0/31'' then Inr [''10.0.0.0'', ''10.0.0.1'']
             else Inl ''cannot enumerate''),
      IPNetString = (\<lambda>n. n),
      StdinStat = Inr 0x2000180,
      StdinScan = [''192.168.0.0/30'', ''not-a-cidr'', ''10.0.0.0/24''],
      OpenScan =
        (\<lambda>p. if p = ''list.txt'' then Inr [''10.0.0.0/31'', ''192.168.0.0/30'']
             else Inl ''no such file''),
      Create = (\<lambda>p. None),
      WriteString = (\<lambda>c d. (c @ d, None)),
      InitFiles = (\<lambda>p. if p = ''out.txt'' then Some ''old content'' else None)\<rparr>"

definition no_opts :: Options where
  "no_opts =
     \<lparr>Slices = 0, HostCount = 0, Cidr = [], FileCidr = [], Silent = False,
      Version = False, Output = []\<rparr>"

definition good_env :: "string env" where
  "good_env = example_env\<lparr>StdinScan := [''192.168.0.0/30'']\<rparr>"

definition list_opts :: Options where
  "list_opts = no_opts\<lparr>FileCidr := ''list.txt'', Output := ''out.txt''\<rparr>"

definition blank_env :: "string env" where
  "blank_env = example_env\<lparr>StdinScan := [[], ''192.168.0.0/30'']\<rparr>"

text \<open>\<^verbatim>\<open>ParseOptions\<close> lets these options through to the pipeline.\<close>

lemma example_options_accepted:
  "ParseOptions no_opts example_env = None
   \<and> ParseOptions list_opts good_env = None
   \<and> ParseOptions no_opts blank_env = None
   \<and> ParseOptions (no_opts\<lparr>Version := True\<rparr>) example_env = Some 0
   \<and> ParseOptions (no_opts\<lparr>Slices := 4, HostCount := 7\<rparr>) example_env = Some 1"
  by code_simp

definition cidr_opts :: Options where
  "cidr_opts = no_opts\<lparr>Cidr := ''10.0.0.0/31''\<rparr>"

definition split_opts :: Options where
  "split_opts = no_opts\<lparr>Slices := 4, Cidr := ''10.0.0.0/24''\<rparr>"

definition file_env :: "string env" where
  "file_env = example_env\<lparr>StdinStat := Inr 0x1A4\<rparr>"

text \<open>
  Standard input that holds a network, then a line of 70000 bytes, then another
  network: the scanner yields the first network and stops.
\<close>

definition long_line :: string where
  "long_line = replicate 70000 (CHR ''1'')"

definition long_input :: string where
  "long_input =
     ''192.168.0.0/30'' @ CHR 0x0A # long_line @ CHR 0x0A # ''10.0.0.0/31'' @ [CHR 0x0A]"

definition long_env :: "string env" where
  "long_env = example_env\<lparr>StdinScan := ScanLines long_input\<rparr>"

lemma ScanLines_long_input: "ScanLines long_input = [''192.168.0.0/30'']"
proof -
  have "ScanLines (long_line @ CHR 0x0A # ''10.0.0.0/31'' @ [CHR 0x0A]) = []"
    by (rule ScanLines_too_long) (simp_all add: long_line_def MaxScanTokenSize_def)
  moreover have "ScanLines long_input =
      dropCR ''192.168.0.0/30''
        # ScanLines (long_line @ CHR 0x0A # ''10.0.0.0/31'' @ [CHR 0x0A])"
    unfolding long_input_def
    by (rule ScanLines_line) (simp_all add: MaxScanTokenSize_def)
  ultimately show ?thesis by (simp add: dropCR_def)
qed

lemma long_env_good_env: "long_env = good_env"
  by (simp only: long_env_def good_env_def ScanLines_long_input)

lemma more_options_accepted:
  "ParseOptions cidr_opts good_env = None
   \<and> ParseOptions split_opts file_env = None
   \<and> ParseOptions no_opts long_env = None"
  unfolding long_env_good_env by code_simp

section \<open>The claims of the specification\<close>

text \<open>
  C1. A descriptor that fails to parse, or whose transformation call returns an
  error, is the last one \<^verbatim>\<open>process\<close> ever receives: when it was received, \<^verbatim>\<open>process\<close>
  is in its loop body with it, what was forwarded is the results of the descriptors
  before it, the process cannot end with status 0, the step of \<^verbatim>\<open>process\<close> ends the
  process with status 1 without sending anything, no continuation of the run sends
  or forwards anything more, and the run that lets the threads move in turn ends
  with status 1.
\<close>

theorem fatal_error_stops_pipeline:
  assumes "s = run opts e sched (start e)"
    and "sent s = xs @ c # ys"
    and "ParseCIDR e c \<noteq> None \<or> isl (invoke e (selected opts) c)"
  shows "ys = [] \<and> ppc s = P_Body c
     \<and> fwd s = concat (map (results opts e) xs)
     \<and> prefix (stdout s) (lines_of (concat (map (results opts e) xs)))
     \<and> exit s \<noteq> Some 0
     \<and> (exit s = None \<longrightarrow>
          (\<exists>s'. step opts e T_process s = Some s' \<and> exit s' = Some 1
             \<and> sent s' = sent s \<and> fwd s' = fwd s \<and> stdout s' = stdout s))
     \<and> sent (run opts e later s) = sent s
     \<and> fwd (run opts e later s) = fwd s
     \<and> exit (run opts e (round_robin (steps_left opts e s)) s) = Some 1"
proof -
  from assms(3) have f: "fails opts e c" by (simp add: fails_iff)
  have reach: "\<And>m. run opts e m s = run opts e (sched @ m) (start e)"
    by (simp add: assms(1) run_append)
  have last: "\<And>m zs. sent (run opts e m s) = xs @ c # zs \<Longrightarrow>
      zs = [] \<and> ppc (run opts e m s) = P_Body c
      \<and> fwd (run opts e m s) = concat (map (results opts e) xs)"
    using failing_received_last [OF inv_proc_run _ f] unfolding reach by blast
  have not0: "\<And>m. ppc (run opts e m s) = P_Body c \<Longrightarrow> exit (run opts e m s) \<noteq> Some 0"
    using exit_0_all_done [OF inv_ctl_run] unfolding reach by fastforce
  have s0: "run opts e [] s = s" by simp
  from last [of "[]" ys] assms(2) have 1: "ys = []" and 2: "ppc s = P_Body c"
    and 3: "fwd s = concat (map (results opts e) xs)" by simp_all
  have "stdout s = lines_of (printed s)"
    using inv_out_run [of opts e sched] by (simp add: inv_out_def assms(1))
  moreover have "prefix (printed s) (fwd s)"
    unfolding printed_def by (rule printed_at_prefix)
  ultimately have 4: "prefix (stdout s) (lines_of (concat (map (results opts e) xs)))"
    using 3 by (simp add: lines_of_prefix)
  from not0 [of "[]"] 2 have 5: "exit s \<noteq> Some 0" by simp
  have 6: "exit s = None \<longrightarrow>
          (\<exists>s'. step opts e T_process s = Some s' \<and> exit s' = Some 1
             \<and> sent s' = sent s \<and> fwd s' = fwd s \<and> stdout s' = stdout s)"
    using body_step_fatal [OF _ 2 f] by blast
  have cont: "\<And>m. sent (run opts e m s) = sent s \<and> fwd (run opts e m s) = fwd s
      \<and> ppc (run opts e m s) = P_Body c"
  proof -
    fix m
    from sent_run [of s opts e m] obtain zs where "sent (run opts e m s) = sent s @ zs"
      by (auto simp: prefix_def)
    with assms(2) 1 have z: "sent (run opts e m s) = xs @ c # zs" by simp
    from last [OF z] z assms(2) 1 3
    show "sent (run opts e m s) = sent s \<and> fwd (run opts e m s) = fwd s
      \<and> ppc (run opts e m s) = P_Body c" by simp
  qed
  let ?r = "round_robin (steps_left opts e s)"
  have "inv_ctl s" unfolding assms(1) by (rule inv_ctl_run)
  then have "exit (run opts e ?r s) \<noteq> None" by (rule round_robin_ends) simp
  moreover from cont [of ?r] have "exit (run opts e ?r s) \<noteq> Some 0" by (simp add: not0)
  ultimately have 9: "exit (run opts e ?r s) = Some 1"
    using exit_values [of opts e "sched @ ?r"] unfolding reach by auto
  from cont [of later] have 7: "sent (run opts e later s) = sent s"
    and 8: "fwd (run opts e later s) = fwd s" by simp_all
  from 1 2 3 4 5 6 7 8 9 show ?thesis by (intro conjI)
qed

theorem fatal_error_stops_pipeline_witness:
  "sent (run no_opts example_env (round_robin 8 @ [T_main]) (start example_env)) =
      [''192.168.0.0/30''] @ ''not-a-cidr'' # []
   \<and> ParseCIDR example_env ''not-a-cidr'' \<noteq> None
   \<and> ppc (run no_opts example_env (round_robin 8 @ [T_main]) (start example_env)) =
      P_Body ''not-a-cidr''
   \<and> fwd (run no_opts example_env (round_robin 8 @ [T_main]) (start example_env)) =
      [''192.168.0.0'', ''192.168.0.1'', ''192.168.0.2'', ''192.168.0.3'']
   \<and> exit (run no_opts example_env (round_robin 8 @ [T_main]) (start example_env)) = None
   \<and> sent (run no_opts example_env (round_robin 40)
        (run no_opts example_env (round_robin 8 @ [T_main]) (start example_env))) =
      [''192.168.0.0/30''] @ ''not-a-cidr'' # []
   \<and> exit (run no_opts example_env
        (round_robin (steps_left no_opts example_env
           (run no_opts example_env (round_robin 8 @ [T_main]) (start example_env))))
        (run no_opts example_env (round_robin 8 @ [T_main]) (start example_env))) = Some 1"
proof -
  let ?s = "run no_opts example_env (round_robin 8 @ [T_main]) (start example_env)"
  have h2: "sent ?s = [''192.168.0.0/30''] @ ''not-a-cidr'' # []" by code_simp
  have p: "ParseCIDR example_env ''not-a-cidr'' \<noteq> None" by (simp add: example_env_def)
  then have h3: "ParseCIDR example_env ''not-a-cidr'' \<noteq> None
      \<or> isl (invoke example_env (selected no_opts) ''not-a-cidr'')" ..
  have x: "exit ?s = None" by code_simp
  have r: "concat (map (results no_opts example_env) [''192.168.0.0/30'']) =
      [''192.168.0.0'', ''192.168.0.1'', ''192.168.0.2'', ''192.168.0.3'']" by code_simp
  note t = fatal_error_stops_pipeline [OF refl h2 h3, of "round_robin 40"]
  from t have c2: "ppc ?s = P_Body ''not-a-cidr''" by (elim conjE)
  from t have "fwd ?s = concat (map (results no_opts example_env) [''192.168.0.0/30''])"
    by (elim conjE)
  then have c3: "fwd ?s = [''192.168.0.0'', ''192.168.0.1'', ''192.168.0.2'', ''192.168.0.3'']"
    by (simp only: r)
  from t have "sent (run no_opts example_env (round_robin 40) ?s) = sent ?s" by (elim conjE)
  then have c7: "sent (run no_opts example_env (round_robin 40) ?s) =
      [''192.168.0.0/30''] @ ''not-a-cidr'' # []" by (simp only: h2)
  from t have c9: "exit (run no_opts example_env
      (round_robin (steps_left no_opts example_env ?s)) ?s) = Some 1" by (elim conjE)
  from h2 p c2 c3 x c7 c9 show ?thesis by (intro conjI)
qed

text \<open>
  C2. For each descriptor that parses, the loop body of \<^verbatim>\<open>process\<close> makes exactly one
  transformation call after \<^verbatim>\<open>net.ParseCIDR\<close>, the one selected by the priority:
  \<^verbatim>\<open>SplitN\<close> with \<^verbatim>\<open>Slices\<close> when \<^verbatim>\<open>Slices\<close> is positive, otherwise \<^verbatim>\<open>SplitByNumber\<close>
  with \<^verbatim>\<open>HostCount\<close> when \<^verbatim>\<open>HostCount\<close> is positive, otherwise \<^verbatim>\<open>IPAddresses\<close>; its
  error ends the process with status 1, its results are what the send loop sends.
\<close>

theorem transformation_by_priority:
  assumes "exit s = None" and "ppc s = P_Body c" and "ParseCIDR e c = None"
  shows "\<exists>s'. step opts e T_process s = Some s'
           \<and> calls s' = calls s @ [Call_ParseCIDR c, call_of (selected opts) c]
           \<and> (case invoke e (selected opts) c of
                Inl er \<Rightarrow> exit s' = Some 1 \<and> ppc s' = P_Body c \<and> fwd s' = fwd s
              | Inr rs \<Rightarrow> exit s' = None \<and> ppc s' = P_Send rs \<and> fwd s' = fwd s)"
  using assms
  by (simp add: step_def process_step_def process_body_selected fatal_def split: sum.splits)

theorem transformation_by_priority_witness:
  "exit ((start example_env)\<lparr>ppc := P_Body ''10.0.0.0/24''\<rparr>) = None
   \<and> ppc ((start example_env)\<lparr>ppc := P_Body ''10.0.0.0/24''\<rparr>) = P_Body ''10.0.0.0/24''
   \<and> ParseCIDR example_env ''10.0.0.0/24'' = None
   \<and> (\<exists>s'. step (no_opts\<lparr>Slices := 4, HostCount := 7\<rparr>) example_env T_process
              ((start example_env)\<lparr>ppc := P_Body ''10.0.0.0/24''\<rparr>) = Some s'
          \<and> calls s' = [Call_ParseCIDR ''10.0.0.0/24'', Call_SplitN ''10.0.0.0/24'' 4]
          \<and> exit s' = None
          \<and> ppc s' =
              P_Send [''10.0.0.0/26'', ''10.0.0.64/26'', ''10.0.0.128/26'', ''10.0.0.192/26''])
   \<and> (\<exists>s'. step (no_opts\<lparr>HostCount := 7\<rparr>) example_env T_process
              ((start example_env)\<lparr>ppc := P_Body ''10.0.0.0/24''\<rparr>) = Some s'
          \<and> calls s' = [Call_ParseCIDR ''10.0.0.0/24'', Call_SplitByNumber ''10.0.0.0/24'' 7]
          \<and> exit s' = Some 1)
   \<and> (\<exists>s'. step no_opts example_env T_process
              ((start example_env)\<lparr>ppc := P_Body ''10.0.0.0/24''\<rparr>) = Some s'
          \<and> calls s' = [Call_ParseCIDR ''10.0.0.0/24'', Call_IPAddresses ''10.0.0.0/24'']
          \<and> exit s' = Some 1)"
proof -
  let ?s = "(start example_env)\<lparr>ppc := P_Body ''10.0.0.0/24''\<rparr>"
  let ?c = "''10.0.0.0/24''"
  have h1: "exit ?s = None" by (simp add: start_def)
  have h2: "ppc ?s = P_Body ?c" by simp
  have h3: "ParseCIDR example_env ?c = None" by (simp add: example_env_def)
  have c: "calls ?s = []" by (simp add: start_def)
  have s1: "selected (no_opts\<lparr>Slices := 4, HostCount := 7\<rparr>) = EqualSplit 4"
    and s2: "selected (no_opts\<lparr>HostCount := 7\<rparr>) = HostCapacitySplit 7"
    and s3: "selected no_opts = FullEnumeration"
    by (simp_all add: selected_def no_opts_def)
  have i1: "invoke example_env (EqualSplit 4) ?c =
      Inr [''10.0.0.0/26'', ''10.0.0.64/26'', ''10.0.0.128/26'', ''10.0.0.192/26'']"
    and i2: "invoke example_env (HostCapacitySplit 7) ?c = Inl ''cannot split''"
    and i3: "invoke example_env FullEnumeration ?c = Inl ''cannot enumerate''"
    by (simp_all add: example_env_def)
  from transformation_by_priority [OF h1 h2 h3, of "no_opts\<lparr>Slices := 4, HostCount := 7\<rparr>"]
  have a: "\<exists>s'. step (no_opts\<lparr>Slices := 4, HostCount := 7\<rparr>) example_env T_process ?s = Some s'
          \<and> calls s' = [Call_ParseCIDR ?c, Call_SplitN ?c 4]
          \<and> exit s' = None
          \<and> ppc s' =
              P_Send [''10.0.0.0/26'', ''10.0.0.64/26'', ''10.0.0.128/26'', ''10.0.0.192/26'']"
    unfolding s1 i1 c by auto
  from transformation_by_priority [OF h1 h2 h3, of "no_opts\<lparr>HostCount := 7\<rparr>"]
  have b: "\<exists>s'. step (no_opts\<lparr>HostCount := 7\<rparr>) example_env T_process ?s = Some s'
          \<and> calls s' = [Call_ParseCIDR ?c, Call_SplitByNumber ?c 7]
          \<and> exit s' = Some 1"
    unfolding s2 i2 c by auto
  from transformation_by_priority [OF h1 h2 h3, of no_opts]
  have d: "\<exists>s'. step no_opts example_env T_process ?s = Some s'
          \<and> calls s' = [Call_ParseCIDR ?c, Call_IPAddresses ?c]
          \<and> exit s' = Some 1"
    unfolding s3 i3 c by auto
  from h1 h2 h3 a b d show ?thesis by (intro conjI)
qed

text \<open>
  C3, as the code has it. \<^verbatim>\<open>main\<close> sends its sources in the fixed order: what was
  sent, followed by what \<^verbatim>\<open>main\<close> has still to send from its program point, is always
  the single CIDR (if there is one), then the tokens the line scanner yields on
  standard input (if it is a pipe), then the tokens it yields on the file (if a path
  is given); once \<^verbatim>\<open>chancidr\<close> is closed, all of them were sent. They are sent: when
  \<^verbatim>\<open>process\<close> waits at its receive, the step of \<^verbatim>\<open>main\<close> hands over the single CIDR,
  or the next token of the source it scans; and when nothing fails, the run that lets
  the threads move in turn closes \<^verbatim>\<open>chancidr\<close> with all of them sent. A line of
  fewer than 65536 bytes is a token; at a line of 65536 bytes or more the scanner
  yields nothing more.
\<close>

theorem sources_in_priority_order:
  assumes "s = run opts e sched (start e)"
  shows "sent s @ unsent opts e (mpc s) = cidr_source opts @ stdin_source e @ file_source opts e
     \<and> (chancidr_closed s \<longrightarrow>
          sent s = cidr_source opts @ stdin_source e @ file_source opts e)
     \<and> (exit s = None \<and> ppc s = P_Range \<and> mpc s = M_IfCidr \<and> Cidr opts \<noteq> [] \<longrightarrow>
          step opts e T_main s =
            Some (s\<lparr>mpc := M_IfStdin, ppc := P_Body (Cidr opts), sent := sent s @ [Cidr opts]\<rparr>))
     \<and> (exit s = None \<and> ppc s = P_Range \<and> mpc s = M_ScanStdin (l # ls) \<longrightarrow>
          step opts e T_main s =
            Some (s\<lparr>mpc := M_ScanStdin ls, ppc := P_Body l, sent := sent s @ [l]\<rparr>))
     \<and> (exit s = None \<and> ppc s = P_Range \<and> mpc s = M_ScanFile (l # ls) \<longrightarrow>
          step opts e T_main s =
            Some (s\<lparr>mpc := M_ScanFile ls, ppc := P_Body l, sent := sent s @ [l]\<rparr>))
     \<and> (nothing_fails opts e \<longrightarrow>
          chancidr_closed (run opts e (round_robin (steps_left opts e s)) s)
          \<and> sent (run opts e (round_robin (steps_left opts e s)) s) =
              cidr_source opts @ stdin_source e @ file_source opts e)
     \<and> (CHR 0x0A \<notin> set line \<and> length line < MaxScanTokenSize \<longrightarrow>
          ScanLines (line @ CHR 0x0A # rest) = dropCR line # ScanLines rest)
     \<and> (CHR 0x0A \<notin> set line \<and> MaxScanTokenSize \<le> length line \<longrightarrow>
          ScanLines (line @ CHR 0x0A # rest) = [])"
proof -
  have c: "inv_ctl s" and i: "inv_in opts e s"
    unfolding assms by (rule inv_ctl_run, rule inv_in_run)
  from i have 1: "sent s @ unsent opts e (mpc s) =
      cidr_source opts @ stdin_source e @ file_source opts e"
    by (simp add: inv_in_def all_sources_def)
  have 2: "chancidr_closed s \<longrightarrow>
      sent s = cidr_source opts @ stdin_source e @ file_source opts e"
    using closed_all_sent [OF c i] by (simp add: all_sources_def)
  have 3: "exit s = None \<and> ppc s = P_Range \<and> mpc s = M_IfCidr \<and> Cidr opts \<noteq> [] \<longrightarrow>
          step opts e T_main s =
            Some (s\<lparr>mpc := M_IfStdin, ppc := P_Body (Cidr opts), sent := sent s @ [Cidr opts]\<rparr>)"
    using main_sends [OF c, where opts = opts and e = e and l = l and ls = ls] by simp
  have 4: "exit s = None \<and> ppc s = P_Range \<and> mpc s = M_ScanStdin (l # ls) \<longrightarrow>
          step opts e T_main s =
            Some (s\<lparr>mpc := M_ScanStdin ls, ppc := P_Body l, sent := sent s @ [l]\<rparr>)"
    using main_sends [OF c, where opts = opts and e = e and l = l and ls = ls] by simp
  have 5: "exit s = None \<and> ppc s = P_Range \<and> mpc s = M_ScanFile (l # ls) \<longrightarrow>
          step opts e T_main s =
            Some (s\<lparr>mpc := M_ScanFile ls, ppc := P_Body l, sent := sent s @ [l]\<rparr>)"
    using main_sends [OF c, where opts = opts and e = e and l = l and ls = ls] by simp
  have 6: "nothing_fails opts e \<longrightarrow>
          chancidr_closed (run opts e (round_robin (steps_left opts e s)) s)
          \<and> sent (run opts e (round_robin (steps_left opts e s)) s) =
              cidr_source opts @ stdin_source e @ file_source opts e"
    using nothing_fails_completes [OF assms] by (simp add: all_sources_def)
  have 7: "CHR 0x0A \<notin> set line \<and> length line < MaxScanTokenSize \<longrightarrow>
          ScanLines (line @ CHR 0x0A # rest) = dropCR line # ScanLines rest"
    using ScanLines_line by blast
  have 8: "CHR 0x0A \<notin> set line \<and> MaxScanTokenSize \<le> length line \<longrightarrow>
          ScanLines (line @ CHR 0x0A # rest) = []"
    using ScanLines_too_long by blast
  from 1 2 3 4 5 6 7 8 show ?thesis by (intro conjI)
qed

theorem sources_in_priority_order_witness:
  "nothing_fails cidr_opts good_env
   \<and> chancidr_closed (run cidr_opts good_env
        (round_robin (steps_left cidr_opts good_env (run cidr_opts good_env [] (start good_env))))
        (run cidr_opts good_env [] (start good_env)))
   \<and> sent (run cidr_opts good_env
        (round_robin (steps_left cidr_opts good_env (run cidr_opts good_env [] (start good_env))))
        (run cidr_opts good_env [] (start good_env))) =
       [''10.0.0.0/31'', ''192.168.0.0/30'']
   \<and> chancidr_closed (run list_opts good_env (round_robin 44) (start good_env))
   \<and> sent (run list_opts good_env (round_robin 44) (start good_env)) =
       [''192.168.0.0/30'', ''10.0.0.0/31'', ''192.168.0.0/30'']
   \<and> mpc (run list_opts good_env (round_robin 4) (start good_env)) = M_IfFile
   \<and> sent (run list_opts good_env (round_robin 4) (start good_env))
        @ unsent list_opts good_env M_IfFile =
       [''192.168.0.0/30'', ''10.0.0.0/31'', ''192.168.0.0/30'']
   \<and> map_option sent (step cidr_opts good_env T_main (run cidr_opts good_env [] (start good_env)))
       = Some [''10.0.0.0/31'']
   \<and> CHR 0x0A \<notin> set long_line
   \<and> MaxScanTokenSize \<le> length long_line
   \<and> ScanLines (long_line @ CHR 0x0A # ''10.0.0.0/31'') = []"
proof -
  let ?i = "run cidr_opts good_env [] (start good_env)"
  let ?a = "run list_opts good_env (round_robin 44) (start good_env)"
  let ?b = "run list_opts good_env (round_robin 4) (start good_env)"
  have nf: "nothing_fails cidr_opts good_env" by code_simp
  have src1: "cidr_source cidr_opts @ stdin_source good_env @ file_source cidr_opts good_env =
      [''10.0.0.0/31'', ''192.168.0.0/30'']" by code_simp
  have src: "cidr_source list_opts @ stdin_source good_env @ file_source list_opts good_env =
      [''192.168.0.0/30'', ''10.0.0.0/31'', ''192.168.0.0/30'']" by code_simp
  have cl: "chancidr_closed ?a" by code_simp
  have m: "mpc ?b = M_IfFile" by code_simp
  have pre: "exit ?i = None \<and> ppc ?i = P_Range \<and> mpc ?i = M_IfCidr \<and> Cidr cidr_opts \<noteq> []"
    by code_simp
  have s0: "sent (start good_env) = []" by (simp add: start_def)
  have s1: "Cidr cidr_opts = ''10.0.0.0/31''" by (simp add: cidr_opts_def no_opts_def)
  note t = sources_in_priority_order
    [OF refl, where opts = cidr_opts and e = good_env and sched = "[]"
       and line = long_line and rest = "''10.0.0.0/31''"]
  note t6 = t [THEN conjunct2, THEN conjunct2, THEN conjunct2, THEN conjunct2, THEN conjunct2,
      THEN conjunct1, THEN mp, OF nf]
  have k1: "CHR 0x0A \<notin> set long_line" by (simp add: long_line_def)
  have k2: "MaxScanTokenSize \<le> length long_line"
    by (simp add: long_line_def MaxScanTokenSize_def)
  from k1 k2 have k: "CHR 0x0A \<notin> set long_line \<and> MaxScanTokenSize \<le> length long_line" ..
  note k3 = t [THEN conjunct2, THEN conjunct2, THEN conjunct2, THEN conjunct2, THEN conjunct2,
      THEN conjunct2, THEN conjunct2, THEN mp, OF k]
  note a1 = t6 [THEN conjunct1]
  note a2 = t6 [THEN conjunct2, unfolded src1]
  note t3 = t [THEN conjunct2, THEN conjunct2, THEN conjunct1, THEN mp, OF pre]
  have a3: "map_option sent (step cidr_opts good_env T_main ?i) = Some [''10.0.0.0/31'']"
    unfolding t3 by (simp add: s0 s1)
  note u = sources_in_priority_order [OF refl, of list_opts good_env "round_robin 44"]
  note b1 = u [THEN conjunct2, THEN conjunct1, THEN mp, OF cl, unfolded src]
  note v = sources_in_priority_order [OF refl, of list_opts good_env "round_robin 4"]
  note b2 = v [THEN conjunct1, unfolded src m]
  from nf a1 a2 cl b1 m b2 a3 k1 k2 k3 show ?thesis by (intro conjI)
qed

text \<open>
  The claim as stated, with every line of a source sent, fails on standard input that
  holds a network, a line of 70000 bytes and another network: the scanner stops at
  the long line, \<^verbatim>\<open>main\<close> looks at no error of the scanner, and the process ends with
  status 0 with the first network sent and the last one never sent.
\<close>

theorem every_line_counterexample:
  "long_input =
     ''192.168.0.0/30'' @ CHR 0x0A # long_line @ CHR 0x0A # ''10.0.0.0/31'' @ [CHR 0x0A]
   \<and> StdinScan long_env = ScanLines long_input
   \<and> ParseCIDR long_env ''10.0.0.0/31'' = None
   \<and> hasStdin long_env
   \<and> exit (run no_opts long_env (round_robin 30) (start long_env)) = Some 0
   \<and> chancidr_closed (run no_opts long_env (round_robin 30) (start long_env))
   \<and> sent (run no_opts long_env (round_robin 30) (start long_env)) = [''192.168.0.0/30'']
   \<and> ''10.0.0.0/31'' \<notin> set (sent (run no_opts long_env (round_robin 30) (start long_env)))"
proof -
  have 1: "long_input =
     ''192.168.0.0/30'' @ CHR 0x0A # long_line @ CHR 0x0A # ''10.0.0.0/31'' @ [CHR 0x0A]"
    by (rule long_input_def)
  have 2: "StdinScan long_env = ScanLines long_input" by (simp add: long_env_def)
  have 3: "ParseCIDR long_env ''10.0.0.0/31'' = None"
    unfolding long_env_good_env by code_simp
  have 4: "hasStdin long_env" unfolding long_env_good_env by code_simp
  have 5: "exit (run no_opts long_env (round_robin 30) (start long_env)) = Some 0"
    unfolding long_env_good_env by code_simp
  have 6: "chancidr_closed (run no_opts long_env (round_robin 30) (start long_env))"
    unfolding long_env_good_env by code_simp
  have 7: "sent (run no_opts long_env (round_robin 30) (start long_env)) = [''192.168.0.0/30'']"
    unfolding long_env_good_env by code_simp
  have 8: "''10.0.0.0/31'' \<notin> set (sent (run no_opts long_env (round_robin 30) (start long_env)))"
    unfolding long_env_good_env by code_simp
  from 1 2 3 4 5 6 7 8 show ?thesis by (intro conjI)
qed

text \<open>
  C4, as the code has it. An empty input line is not skipped before the sink: \<^verbatim>\<open>main\<close>
  sends it like any other line, and \<^verbatim>\<open>process\<close> parses it. \<^verbatim>\<open>net.ParseCIDR\<close> rejects
  the empty string, so the empty line is the last descriptor \<^verbatim>\<open>process\<close> receives:
  its step calls \<^verbatim>\<open>net.ParseCIDR\<close> on it and ends the process with status 1, with
  nothing forwarded or printed for it. Only \<^verbatim>\<open>output\<close> skips empty strings: its step
  on an empty record prints and writes nothing. An empty record is never printed.
\<close>

theorem empty_line_is_parsed_and_fatal:
  assumes "s = run opts e sched (start e)" and "ParseCIDR e [] \<noteq> None"
  shows "(exit s = None \<and> mpc s = M_ScanStdin ([] # ls) \<and> ppc s = P_Range \<longrightarrow>
          step opts e T_main s =
            Some (s\<lparr>mpc := M_ScanStdin ls, ppc := P_Body [], sent := sent s @ [[]]\<rparr>))
     \<and> (exit s = None \<and> mpc s = M_ScanFile ([] # ls) \<and> ppc s = P_Range \<longrightarrow>
          step opts e T_main s =
            Some (s\<lparr>mpc := M_ScanFile ls, ppc := P_Body [], sent := sent s @ [[]]\<rparr>))
     \<and> ([] \<in> set (sent s) \<longrightarrow>
          ppc s = P_Body [] \<and> last (sent s) = [] \<and> exit s \<noteq> Some 0
          \<and> (exit s = None \<longrightarrow>
               (\<exists>s'. step opts e T_process s = Some s' \<and> exit s' = Some 1
                  \<and> calls s' = calls s @ [Call_ParseCIDR []]
                  \<and> fwd s' = fwd s \<and> stdout s' = stdout s)))
     \<and> (exit s = None \<and> opc s = O_Body [] \<longrightarrow>
          step opts e T_output s = Some (s\<lparr>opc := O_Range\<rparr>))
     \<and> newline \<notin> set (stdout s)"
proof -
  have c: "inv_ctl s" and p: "inv_proc opts e s" and o: "inv_out s"
    unfolding assms(1) by (rule inv_ctl_run, rule inv_proc_run, rule inv_out_run)
  from assms(2) have f: "fails opts e []" by (simp add: fails_iff)
  from assms(2) obtain er where er: "ParseCIDR e [] = Some er" by auto
  have 1: "exit s = None \<and> mpc s = M_ScanStdin ([] # ls) \<and> ppc s = P_Range \<longrightarrow>
          step opts e T_main s =
            Some (s\<lparr>mpc := M_ScanStdin ls, ppc := P_Body [], sent := sent s @ [[]]\<rparr>)"
  proof
    assume a: "exit s = None \<and> mpc s = M_ScanStdin ([] # ls) \<and> ppc s = P_Range"
    then have "\<not> chancidr_closed s" by (simp add: chancidr_closed_iff [OF c])
    with a show "step opts e T_main s =
            Some (s\<lparr>mpc := M_ScanStdin ls, ppc := P_Body [], sent := sent s @ [[]]\<rparr>)"
      by (simp add: step_def main_step_def send_chancidr_def)
  qed
  have 2: "exit s = None \<and> mpc s = M_ScanFile ([] # ls) \<and> ppc s = P_Range \<longrightarrow>
          step opts e T_main s =
            Some (s\<lparr>mpc := M_ScanFile ls, ppc := P_Body [], sent := sent s @ [[]]\<rparr>)"
  proof
    assume a: "exit s = None \<and> mpc s = M_ScanFile ([] # ls) \<and> ppc s = P_Range"
    then have "\<not> chancidr_closed s" by (simp add: chancidr_closed_iff [OF c])
    with a show "step opts e T_main s =
            Some (s\<lparr>mpc := M_ScanFile ls, ppc := P_Body [], sent := sent s @ [[]]\<rparr>)"
      by (simp add: step_def main_step_def send_chancidr_def)
  qed
  have 3: "[] \<in> set (sent s) \<longrightarrow>
          ppc s = P_Body [] \<and> last (sent s) = [] \<and> exit s \<noteq> Some 0
          \<and> (exit s = None \<longrightarrow>
               (\<exists>s'. step opts e T_process s = Some s' \<and> exit s' = Some 1
                  \<and> calls s' = calls s @ [Call_ParseCIDR []]
                  \<and> fwd s' = fwd s \<and> stdout s' = stdout s))"
  proof
    assume "[] \<in> set (sent s)"
    then obtain xs ys where x: "sent s = xs @ [] # ys" by (auto simp: in_set_conv_decomp)
    from failing_received_last [OF p x f] have y: "ys = []" and b: "ppc s = P_Body []"
      by simp_all
    from x y have l: "last (sent s) = []" by simp
    from b exit_0_all_done [OF c] have n: "exit s \<noteq> Some 0" by auto
    have "fst (process_body opts e []) = [Call_ParseCIDR []]"
      using er by (simp add: process_body_parse_error)
    with body_step_fatal [OF _ b f]
    have "exit s = None \<longrightarrow>
               (\<exists>s'. step opts e T_process s = Some s' \<and> exit s' = Some 1
                  \<and> calls s' = calls s @ [Call_ParseCIDR []]
                  \<and> fwd s' = fwd s \<and> stdout s' = stdout s)"
      by auto
    with b l n show "ppc s = P_Body [] \<and> last (sent s) = [] \<and> exit s \<noteq> Some 0
          \<and> (exit s = None \<longrightarrow>
               (\<exists>s'. step opts e T_process s = Some s' \<and> exit s' = Some 1
                  \<and> calls s' = calls s @ [Call_ParseCIDR []]
                  \<and> fwd s' = fwd s \<and> stdout s' = stdout s))"
      by (intro conjI)
  qed
  have 4: "exit s = None \<and> opc s = O_Body [] \<longrightarrow>
          step opts e T_output s = Some (s\<lparr>opc := O_Range\<rparr>)"
    by (simp add: step_def output_step_def)
  from o have 5: "newline \<notin> set (stdout s)" by (rule newline_not_printed)
  from 1 2 3 4 5 show ?thesis by (intro conjI)
qed

theorem empty_line_is_parsed_and_fatal_witness:
  "ParseCIDR blank_env [] \<noteq> None
   \<and> [] \<in> set (sent (run no_opts blank_env (round_robin 2 @ [T_main]) (start blank_env)))
   \<and> exit (run no_opts blank_env (round_robin 2 @ [T_main]) (start blank_env)) = None
   \<and> ppc (run no_opts blank_env (round_robin 2 @ [T_main]) (start blank_env)) = P_Body []
   \<and> (\<exists>s'. step no_opts blank_env T_process
              (run no_opts blank_env (round_robin 2 @ [T_main]) (start blank_env)) = Some s'
          \<and> exit s' = Some 1
          \<and> calls s' =
               calls (run no_opts blank_env (round_robin 2 @ [T_main]) (start blank_env))
               @ [Call_ParseCIDR []]
          \<and> fwd s' = fwd (run no_opts blank_env (round_robin 2 @ [T_main]) (start blank_env))
          \<and> stdout s' =
               stdout (run no_opts blank_env (round_robin 2 @ [T_main]) (start blank_env)))
   \<and> newline \<notin>
       set (stdout (run no_opts blank_env (round_robin 2 @ [T_main]) (start blank_env)))"
proof -
  let ?s = "run no_opts blank_env (round_robin 2 @ [T_main]) (start blank_env)"
  have h: "ParseCIDR blank_env [] \<noteq> None" by (simp add: blank_env_def example_env_def)
  have i: "[] \<in> set (sent ?s)" by code_simp
  have x: "exit ?s = None" by code_simp
  note t = empty_line_is_parsed_and_fatal [OF refl h, of no_opts "round_robin 2 @ [T_main]"]
  note t3 = t [THEN conjunct2, THEN conjunct2, THEN conjunct1, THEN mp, OF i]
  note b = t3 [THEN conjunct1]
  note c = t3 [THEN conjunct2, THEN conjunct2, THEN conjunct2, THEN mp, OF x]
  note n = t [THEN conjunct2, THEN conjunct2, THEN conjunct2, THEN conjunct2]
  from h i x b c n show ?thesis by (intro conjI)
qed

text \<open>
  The claim as stated fails on standard input holding an empty line before a network:
  \<^verbatim>\<open>net.ParseCIDR\<close> is called on the empty line, the process ends with status 1, and
  the network after it is never sent, so nothing is printed.
\<close>

theorem empty_line_counterexample:
  "StdinScan blank_env = [[], ''192.168.0.0/30'']
   \<and> calls (run no_opts blank_env (round_robin 30) (start blank_env)) = [Call_ParseCIDR []]
   \<and> exit (run no_opts blank_env (round_robin 30) (start blank_env)) = Some 1
   \<and> sent (run no_opts blank_env (round_robin 30) (start blank_env)) = [[]]
   \<and> mpc (run no_opts blank_env (round_robin 30) (start blank_env)) =
        M_ScanStdin [''192.168.0.0/30'']
   \<and> stdout (run no_opts blank_env (round_robin 30) (start blank_env)) = []"
  by code_simp

text \<open>
  C5. The order of the output is that of the input and of the transformation: what
  \<^verbatim>\<open>process\<close> forwarded, followed by what its send loop has still to send, is the
  concatenation, in the order received, of what the selected library function
  returned for each descriptor \<^verbatim>\<open>process\<close> is through with, in the order returned;
  these descriptors are a prefix of the sources in their order; standard output is one
  line for each non-empty record that \<^verbatim>\<open>output\<close> is through with, in the order
  forwarded; a process that ended with status 0 has printed the lines of what was
  returned for all sources, in this order; and when nothing fails, the run that lets
  the threads move in turn ends so.
\<close>

theorem output_order_preserved:
  assumes "s = run opts e sched (start e)"
  shows "fwd s @ unforwarded (ppc s) = concat (map (returned opts e) (handled s))
     \<and> prefix (handled s) (all_sources opts e)
     \<and> stdout s = lines_of (printed s)
     \<and> prefix (printed s) (fwd s)
     \<and> prefix (stdout s) (lines_of (concat (map (returned opts e) (all_sources opts e))))
     \<and> (exit s = Some 0 \<longrightarrow>
          stdout s = lines_of (concat (map (returned opts e) (all_sources opts e))))
     \<and> (nothing_fails opts e \<longrightarrow>
          exit (run opts e (round_robin (steps_left opts e s)) s) = Some 0
          \<and> stdout (run opts e (round_robin (steps_left opts e s)) s) =
              lines_of (concat (map (returned opts e) (all_sources opts e))))"
proof -
  have c: "inv_ctl s" and i: "inv_in opts e s" and p: "inv_proc opts e s" and o: "inv_out s"
    unfolding assms by (rule inv_ctl_run, rule inv_in_run, rule inv_proc_run, rule inv_out_run)
  from p have 1: "fwd s @ unforwarded (ppc s) = concat (map (returned opts e) (handled s))"
    by (simp add: inv_proc_def results_returned)
  have 2: "prefix (handled s) (all_sources opts e)"
    unfolding assms by (rule handled_prefix_all_sources)
  from o have 3: "stdout s = lines_of (printed s)" by (simp add: inv_out_def)
  have 4: "prefix (printed s) (fwd s)"
    unfolding printed_def by (rule printed_at_prefix)
  have "prefix (fwd s) (concat (map (returned opts e) (handled s)))"
    using 1 by (metis prefixI)
  also have "prefix \<dots> (concat (map (returned opts e) (all_sources opts e)))"
    using 2 by (rule concat_map_prefix)
  finally have "prefix (printed s) (concat (map (returned opts e) (all_sources opts e)))"
    using 4 by (rule prefix_order.trans[rotated])
  then have 5: "prefix (stdout s) (lines_of (concat (map (returned opts e) (all_sources opts e))))"
    unfolding 3 by (rule lines_of_prefix)
  have 6: "exit s = Some 0 \<longrightarrow>
      stdout s = lines_of (concat (map (returned opts e) (all_sources opts e)))"
  proof
    assume "exit s = Some 0"
    with c have d: "ppc s = P_Done" "opc s = O_Done" "chancidr_closed s"
      using exit_0_all_done by blast+
    from closed_all_sent [OF c i d(3)] d(1) have "handled s = all_sources opts e"
      by (simp add: handled_def)
    with 1 d(1) have "fwd s = concat (map (returned opts e) (all_sources opts e))" by simp
    with 3 d(2) show "stdout s = lines_of (concat (map (returned opts e) (all_sources opts e)))"
      by (simp add: printed_def)
  qed
  have 7: "nothing_fails opts e \<longrightarrow>
          exit (run opts e (round_robin (steps_left opts e s)) s) = Some 0
          \<and> stdout (run opts e (round_robin (steps_left opts e s)) s) =
              lines_of (concat (map (returned opts e) (all_sources opts e)))"
    using nothing_fails_completes [OF assms] by simp
  from 1 2 3 4 5 6 7 show ?thesis by (intro conjI)
qed

theorem output_order_preserved_witness:
  "nothing_fails split_opts file_env
   \<and> SplitN file_env ''10.0.0.0/24'' 4 =
       Inr [''10.0.0.0/26'', ''10.0.0.64/26'', ''10.0.0.128/26'', ''10.0.0.192/26'']
   \<and> exit (run split_opts file_env
        (round_robin (steps_left split_opts file_env (run split_opts file_env [] (start file_env))))
        (run split_opts file_env [] (start file_env))) = Some 0
   \<and> stdout (run split_opts file_env
        (round_robin (steps_left split_opts file_env (run split_opts file_env [] (start file_env))))
        (run split_opts file_env [] (start file_env))) =
       [''10.0.0.0/26'' @ newline, ''10.0.0.64/26'' @ newline, ''10.0.0.128/26'' @ newline,
        ''10.0.0.192/26'' @ newline]
   \<and> exit (run list_opts good_env (round_robin 44) (start good_env)) = Some 0
   \<and> stdout (run list_opts good_env (round_robin 44) (start good_env)) =
       [''192.168.0.0'' @ newline, ''192.168.0.1'' @ newline, ''192.168.0.2'' @ newline,
        ''192.168.0.3'' @ newline, ''10.0.0.0'' @ newline, ''10.0.0.1'' @ newline,
        ''192.168.0.0'' @ newline, ''192.168.0.1'' @ newline, ''192.168.0.2'' @ newline,
        ''192.168.0.3'' @ newline]"
proof -
  let ?s = "run list_opts good_env (round_robin 44) (start good_env)"
  have nf: "nothing_fails split_opts file_env" by code_simp
  have lib: "SplitN file_env ''10.0.0.0/24'' 4 =
       Inr [''10.0.0.0/26'', ''10.0.0.64/26'', ''10.0.0.128/26'', ''10.0.0.192/26'']"
    by (simp add: file_env_def example_env_def)
  have l1: "lines_of (concat (map (returned split_opts file_env) (all_sources split_opts file_env))) =
       [''10.0.0.0/26'' @ newline, ''10.0.0.64/26'' @ newline, ''10.0.0.128/26'' @ newline,
        ''10.0.0.192/26'' @ newline]" by code_simp
  have x: "exit ?s = Some 0" by code_simp
  have l: "lines_of (concat (map (returned list_opts good_env) (all_sources list_opts good_env))) =
       [''192.168.0.0'' @ newline, ''192.168.0.1'' @ newline, ''192.168.0.2'' @ newline,
        ''192.168.0.3'' @ newline, ''10.0.0.0'' @ newline, ''10.0.0.1'' @ newline,
        ''192.168.0.0'' @ newline, ''192.168.0.1'' @ newline, ''192.168.0.2'' @ newline,
        ''192.168.0.3'' @ newline]" by code_simp
  note t = output_order_preserved [OF refl, of split_opts file_env "[]"]
  note t7 = t [THEN conjunct2, THEN conjunct2, THEN conjunct2, THEN conjunct2, THEN conjunct2,
      THEN conjunct2, THEN mp, OF nf]
  note a1 = t7 [THEN conjunct1]
  note a2 = t7 [THEN conjunct2, unfolded l1]
  note u = output_order_preserved [OF refl, of list_opts good_env "round_robin 44"]
  note b = u [THEN conjunct2, THEN conjunct2, THEN conjunct2, THEN conjunct2, THEN conjunct2,
      THEN conjunct1, THEN mp, OF x, unfolded l]
  from nf lib a1 a2 x b show ?thesis by (intro conjI)
qed



text \<open>
  C7, as the code has it. The two channels are unbuffered. A send of \<^verbatim>\<open>main\<close> is
  blocked unless \<^verbatim>\<open>process\<close> is waiting at its receive, and then hands the
  descriptor over directly; a send of \<^verbatim>\<open>process\<close> is blocked unless \<^verbatim>\<open>output\<close> is
  waiting at its receive, and then hands the record over directly. So at any time at
  most one descriptor sent is not dealt with by \<^verbatim>\<open>process\<close>, and at most one record
  forwarded is not dealt with by \<^verbatim>\<open>output\<close>: nothing is queued.
\<close>

theorem channels_are_unbuffered:
  assumes "s = run opts e sched (start e)" and "exit s = None"
  shows "(mpc s = M_ScanStdin (l # ls) \<or> mpc s = M_ScanFile (l # ls)
            \<or> mpc s = M_IfCidr \<and> Cidr opts = l \<and> l \<noteq> [] \<longrightarrow>
          (ppc s \<noteq> P_Range \<longrightarrow> step opts e T_main s = None)
          \<and> (ppc s = P_Range \<longrightarrow>
               (\<exists>s'. step opts e T_main s = Some s' \<and> ppc s' = P_Body l
                  \<and> sent s' = sent s @ [l])))
     \<and> (ppc s = P_Send (r # rs) \<longrightarrow>
          (opc s \<noteq> O_Range \<longrightarrow> step opts e T_process s = None)
          \<and> (opc s = O_Range \<longrightarrow>
               (\<exists>s'. step opts e T_process s = Some s' \<and> opc s' = O_Body r
                  \<and> ppc s' = P_Send rs \<and> fwd s' = fwd s @ [r])))
     \<and> length (sent s) \<le> Suc (length (handled s))
     \<and> length (fwd s) \<le> Suc (length (printed s))"
proof -
  have c: "inv_ctl s" unfolding assms(1) by (rule inv_ctl_run)
  have 1: "mpc s = M_ScanStdin (l # ls) \<or> mpc s = M_ScanFile (l # ls)
            \<or> mpc s = M_IfCidr \<and> Cidr opts = l \<and> l \<noteq> [] \<longrightarrow>
          (ppc s \<noteq> P_Range \<longrightarrow> step opts e T_main s = None)
          \<and> (ppc s = P_Range \<longrightarrow>
               (\<exists>s'. step opts e T_main s = Some s' \<and> ppc s' = P_Body l
                  \<and> sent s' = sent s @ [l]))"
  proof
    assume a: "mpc s = M_ScanStdin (l # ls) \<or> mpc s = M_ScanFile (l # ls)
            \<or> mpc s = M_IfCidr \<and> Cidr opts = l \<and> l \<noteq> []"
    then have n: "\<not> chancidr_closed s" by (auto simp: chancidr_closed_iff [OF c])
    from a n assms(2) show "(ppc s \<noteq> P_Range \<longrightarrow> step opts e T_main s = None)
          \<and> (ppc s = P_Range \<longrightarrow>
               (\<exists>s'. step opts e T_main s = Some s' \<and> ppc s' = P_Body l
                  \<and> sent s' = sent s @ [l]))"
      by (elim disjE conjE) (simp_all add: step_def main_step_def send_chancidr_def)
  qed
  have 2: "ppc s = P_Send (r # rs) \<longrightarrow>
          (opc s \<noteq> O_Range \<longrightarrow> step opts e T_process s = None)
          \<and> (opc s = O_Range \<longrightarrow>
               (\<exists>s'. step opts e T_process s = Some s' \<and> opc s' = O_Body r
                  \<and> ppc s' = P_Send rs \<and> fwd s' = fwd s @ [r]))"
  proof
    assume a: "ppc s = P_Send (r # rs)"
    then have n: "\<not> outputchan_closed s" by (simp add: outputchan_closed_iff [OF c])
    from a n assms(2) show "(opc s \<noteq> O_Range \<longrightarrow> step opts e T_process s = None)
          \<and> (opc s = O_Range \<longrightarrow>
               (\<exists>s'. step opts e T_process s = Some s' \<and> opc s' = O_Body r
                  \<and> ppc s' = P_Send rs \<and> fwd s' = fwd s @ [r]))"
      by (simp add: step_def process_step_def send_outputchan_def)
  qed
  have 3: "length (sent s) \<le> Suc (length (handled s))"
    unfolding handled_def by (rule in_flight_descriptor)
  have 4: "length (fwd s) \<le> Suc (length (printed s))"
    unfolding printed_def by (rule in_flight_record)
  from 1 2 3 4 show ?thesis by (intro conjI)
qed

theorem channels_are_unbuffered_witness:
  "exit (run no_opts example_env (round_robin 3) (start example_env)) = None
   \<and> mpc (run no_opts example_env (round_robin 3) (start example_env)) =
       M_ScanStdin (''not-a-cidr'' # [''10.0.0.0/24''])
   \<and> ppc (run no_opts example_env (round_robin 3) (start example_env)) \<noteq> P_Range
   \<and> step no_opts example_env T_main
        (run no_opts example_env (round_robin 3) (start example_env)) = None"
proof -
  let ?s = "run no_opts example_env (round_robin 3) (start example_env)"
  have x: "exit ?s = None" by code_simp
  have m: "mpc ?s = M_ScanStdin (''not-a-cidr'' # [''10.0.0.0/24''])" by code_simp
  have p: "ppc ?s \<noteq> P_Range" by code_simp
  from m have m': "mpc ?s = M_ScanStdin (''not-a-cidr'' # [''10.0.0.0/24''])
      \<or> mpc ?s = M_ScanFile (''not-a-cidr'' # [''10.0.0.0/24''])
      \<or> mpc ?s = M_IfCidr \<and> Cidr no_opts = ''not-a-cidr'' \<and> ''not-a-cidr'' \<noteq> []" ..
  note t = channels_are_unbuffered
    [where opts = no_opts and e = example_env and sched = "round_robin 3"
       and l = "''not-a-cidr''" and ls = "[''10.0.0.0/24'']", OF refl x]
  note b = t [THEN conjunct1, THEN mp, OF m', THEN conjunct1, THEN mp, OF p]
  from x m p b show ?thesis by (intro conjI)
qed

text \<open>
  The claim as stated fails as soon as \<^verbatim>\<open>process\<close> holds the first descriptor:
  \<^verbatim>\<open>main\<close> has the second one to send, the channel is open, and its send is blocked.
\<close>

theorem unbounded_channel_counterexample:
  "mpc (run no_opts example_env [T_main, T_main, T_main] (start example_env)) =
      M_ScanStdin [''not-a-cidr'', ''10.0.0.0/24'']
   \<and> ppc (run no_opts example_env [T_main, T_main, T_main] (start example_env)) =
      P_Body ''192.168.0.0/30''
   \<and> exit (run no_opts example_env [T_main, T_main, T_main] (start example_env)) = None
   \<and> \<not> chancidr_closed (run no_opts example_env [T_main, T_main, T_main] (start example_env))
   \<and> step no_opts example_env T_main
        (run no_opts example_env [T_main, T_main, T_main] (start example_env)) = None"
  by code_simp

text \<open>
  C8. \<^verbatim>\<open>hasStdin\<close> is true exactly when \<^verbatim>\<open>Stat\<close> succeeds and bit 25 of the mode,
  the named-pipe bit, is set. \<^verbatim>\<open>main\<close> enters the scanner loop on standard input
  exactly then, and otherwise goes on to the file. When \<^verbatim>\<open>hasStdin\<close> is false all that
  is ever sent comes from the single CIDR and the file. When it is true, what was sent
  and what is still to send hold the tokens of standard input between the single CIDR
  and the file, each step of the scanner loop hands over the next token when
  \<^verbatim>\<open>process\<close> waits, and when nothing fails the run that lets the threads move in turn
  has sent them all; in the same run with \<^verbatim>\<open>hasStdin\<close> false, none of them.
\<close>

theorem stdin_only_when_named_pipe:
  assumes "s = run opts e sched (start e)"
  shows "hasStdin e = (\<exists>mode. StdinStat e = Inr mode \<and> bit mode 25)
   \<and> (\<forall>s'. exit s' = None \<and> mpc s' = M_IfStdin \<longrightarrow>
        step opts e T_main s' =
          Some (s'\<lparr>mpc := if hasStdin e then M_ScanStdin (StdinScan e) else M_IfFile\<rparr>))
   \<and> (\<not> hasStdin e \<longrightarrow>
        prefix (sent (run opts e sched (start e))) (cidr_source opts @ file_source opts e))
   \<and> (hasStdin e \<longrightarrow>
        sent s @ unsent opts e (mpc s) = cidr_source opts @ StdinScan e @ file_source opts e)
   \<and> (exit s = None \<and> ppc s = P_Range \<and> mpc s = M_ScanStdin (l # ls) \<longrightarrow>
        step opts e T_main s =
          Some (s\<lparr>mpc := M_ScanStdin ls, ppc := P_Body l, sent := sent s @ [l]\<rparr>))
   \<and> (hasStdin e \<and> nothing_fails opts e \<longrightarrow>
        sent (run opts e (round_robin (steps_left opts e s)) s) =
          cidr_source opts @ StdinScan e @ file_source opts e)
   \<and> (\<not> hasStdin e \<and> nothing_fails opts e \<longrightarrow>
        sent (run opts e (round_robin (steps_left opts e s)) s) =
          cidr_source opts @ file_source opts e)"
proof -
  have c: "inv_ctl s" and i: "inv_in opts e s"
    unfolding assms by (rule inv_ctl_run, rule inv_in_run)
  have 1: "hasStdin e = (\<exists>mode. StdinStat e = Inr mode \<and> bit mode 25)"
    by (rule hasStdin_bit)
  have 2: "\<forall>s'. exit s' = None \<and> mpc s' = M_IfStdin \<longrightarrow>
        step opts e T_main s' =
          Some (s'\<lparr>mpc := if hasStdin e then M_ScanStdin (StdinScan e) else M_IfFile\<rparr>)"
    by (simp add: step_def main_step_def)
  have 3: "\<not> hasStdin e \<longrightarrow>
        prefix (sent (run opts e sched (start e))) (cidr_source opts @ file_source opts e)"
    using sent_prefix_all_sources [of opts e sched]
    by (auto simp: all_sources_def stdin_source_def)
  from i have 4: "hasStdin e \<longrightarrow>
        sent s @ unsent opts e (mpc s) = cidr_source opts @ StdinScan e @ file_source opts e"
    by (simp add: inv_in_def all_sources_def stdin_source_def)
  have 5: "exit s = None \<and> ppc s = P_Range \<and> mpc s = M_ScanStdin (l # ls) \<longrightarrow>
        step opts e T_main s =
          Some (s\<lparr>mpc := M_ScanStdin ls, ppc := P_Body l, sent := sent s @ [l]\<rparr>)"
    using main_sends [OF c, where opts = opts and e = e and l = l and ls = ls] by simp
  have 6: "hasStdin e \<and> nothing_fails opts e \<longrightarrow>
        sent (run opts e (round_robin (steps_left opts e s)) s) =
          cidr_source opts @ StdinScan e @ file_source opts e"
    using nothing_fails_completes [OF assms] by (simp add: all_sources_def stdin_source_def)
  have 7: "\<not> hasStdin e \<and> nothing_fails opts e \<longrightarrow>
        sent (run opts e (round_robin (steps_left opts e s)) s) =
          cidr_source opts @ file_source opts e"
    using nothing_fails_completes [OF assms] by (simp add: all_sources_def stdin_source_def)
  from 1 2 3 4 5 6 7 show ?thesis by (intro conjI)
qed

theorem stdin_only_when_named_pipe_witness:
  "hasStdin example_env
   \<and> bit (0x2000180 :: 32 word) 25
   \<and> \<not> hasStdin (example_env\<lparr>StdinStat := Inr 0x4200190\<rparr>)
   \<and> \<not> hasStdin file_env
   \<and> \<not> hasStdin (example_env\<lparr>StdinStat := Inl ''bad file descriptor''\<rparr>)
   \<and> step no_opts example_env T_main ((start example_env)\<lparr>mpc := M_IfStdin\<rparr>) =
       Some ((start example_env)
          \<lparr>mpc := M_ScanStdin [''192.168.0.0/30'', ''not-a-cidr'', ''10.0.0.0/24'']\<rparr>)
   \<and> step no_opts file_env T_main ((start example_env)\<lparr>mpc := M_IfStdin\<rparr>) =
       Some ((start example_env)\<lparr>mpc := M_IfFile\<rparr>)
   \<and> hasStdin good_env
   \<and> nothing_fails cidr_opts good_env
   \<and> sent (run cidr_opts good_env
        (round_robin (steps_left cidr_opts good_env (run cidr_opts good_env [] (start good_env))))
        (run cidr_opts good_env [] (start good_env))) =
       [''10.0.0.0/31'', ''192.168.0.0/30'']
   \<and> StdinScan file_env = [''192.168.0.0/30'', ''not-a-cidr'', ''10.0.0.0/24'']
   \<and> nothing_fails cidr_opts file_env
   \<and> sent (run cidr_opts file_env
        (round_robin (steps_left cidr_opts file_env (run cidr_opts file_env [] (start file_env))))
        (run cidr_opts file_env [] (start file_env))) =
       [''10.0.0.0/31'']"
proof -
  let ?tty = "example_env\<lparr>StdinStat := Inr 0x4200190\<rparr>"
  let ?bad = "example_env\<lparr>StdinStat := Inl ''bad file descriptor''\<rparr>"
  let ?q = "(start example_env)\<lparr>mpc := M_IfStdin\<rparr>"
  note pipe = stdin_only_when_named_pipe [OF refl, of example_env no_opts "[]"]
  note tty = stdin_only_when_named_pipe [OF refl, of ?tty no_opts "[]"]
  note reg = stdin_only_when_named_pipe [OF refl, of file_env cidr_opts "[]"]
  note reg' = stdin_only_when_named_pipe [OF refl, of file_env no_opts "[]"]
  note bad = stdin_only_when_named_pipe [OF refl, of ?bad no_opts "[]"]
  note good = stdin_only_when_named_pipe [OF refl, of good_env cidr_opts "[]"]
  have b1: "bit (0x2000180 :: 32 word) 25" by simp
  have "StdinStat example_env = Inr 0x2000180" by (simp add: example_env_def)
  with b1 pipe [THEN conjunct1] have p1: "hasStdin example_env" by blast
  have "\<not> bit (0x4200190 :: 32 word) 25" by simp
  with tty [THEN conjunct1] have p2: "\<not> hasStdin ?tty" by simp
  have "\<not> bit (0x1A4 :: 32 word) 25" by simp
  with reg [THEN conjunct1] have p3: "\<not> hasStdin file_env" by (simp add: file_env_def)
  from bad [THEN conjunct1] have p4: "\<not> hasStdin ?bad" by simp
  have e0: "exit ?q = None \<and> mpc ?q = M_IfStdin" by (simp add: start_def)
  note st = pipe [THEN conjunct2, THEN conjunct1, THEN spec, THEN mp, OF e0]
  with p1 have p5: "step no_opts example_env T_main ?q =
      Some ((start example_env)
        \<lparr>mpc := M_ScanStdin [''192.168.0.0/30'', ''not-a-cidr'', ''10.0.0.0/24'']\<rparr>)"
    by (simp add: example_env_def)
  note st' = reg' [THEN conjunct2, THEN conjunct1, THEN spec, THEN mp, OF e0]
  with p3 have p6: "step no_opts file_env T_main ?q = Some ((start example_env)\<lparr>mpc := M_IfFile\<rparr>)"
    by simp
  have "StdinStat good_env = Inr 0x2000180" by (simp add: good_env_def example_env_def)
  with b1 good [THEN conjunct1] have g1: "hasStdin good_env" by blast
  have nf: "nothing_fails cidr_opts good_env" by code_simp
  have src: "cidr_source cidr_opts @ StdinScan good_env @ file_source cidr_opts good_env =
      [''10.0.0.0/31'', ''192.168.0.0/30'']" by code_simp
  from g1 nf have gn: "hasStdin good_env \<and> nothing_fails cidr_opts good_env" ..
  note g2 = good [THEN conjunct2, THEN conjunct2, THEN conjunct2, THEN conjunct2, THEN conjunct2,
      THEN conjunct1, THEN mp, OF gn, unfolded src]
  have tok: "StdinScan file_env = [''192.168.0.0/30'', ''not-a-cidr'', ''10.0.0.0/24'']"
    by (simp add: file_env_def example_env_def)
  have nf': "nothing_fails cidr_opts file_env" by code_simp
  have src': "cidr_source cidr_opts @ file_source cidr_opts file_env = [''10.0.0.0/31'']"
    by code_simp
  from p3 nf' have rn: "\<not> hasStdin file_env \<and> nothing_fails cidr_opts file_env" ..
  note r2 = reg [THEN conjunct2, THEN conjunct2, THEN conjunct2, THEN conjunct2, THEN conjunct2,
      THEN conjunct2, THEN mp, OF rn, unfolded src']
  from p1 b1 p2 p3 p4 p5 p6 g1 nf g2 tok nf' r2 show ?thesis by (intro conjI)
qed

text \<open>
  C9. A write to the output file that fails is ignored: when \<^verbatim>\<open>output\<close> holds a
  record that is not empty and the file is open, its step prints the record to
  standard output, leaves the file with whatever the failed \<^verbatim>\<open>WriteString\<close> left,
  does not end the process, and is back at the receive for the next record.
\<close>

theorem failed_file_write_is_ignored:
  assumes "exit s = None" and "opc s = O_Body out" and "out \<noteq> []"
    and "fhandle s = Some p"
    and "snd (WriteString e (file_content s p) (out @ newline)) = Some er"
  shows "\<exists>s'. step opts e T_output s = Some s'
           \<and> exit s' = None
           \<and> stdout s' = stdout s @ [out @ newline]
           \<and> opc s' = O_Range
           \<and> files s' p = Some (fst (WriteString e (file_content s p) (out @ newline)))"
  using assms by (simp add: step_def output_step_def)

theorem failed_file_write_is_ignored_witness:
  "exit ((start example_env)\<lparr>opc := O_Body ''192.168.0.0'', fhandle := Some ''out.txt''\<rparr>) = None
   \<and> snd (WriteString (example_env\<lparr>WriteString := (\<lambda>c d. (c, Some ''no space left on device''))\<rparr>)
          ''old content'' (''192.168.0.0'' @ newline)) = Some ''no space left on device''
   \<and> (\<exists>s'. step no_opts (example_env\<lparr>WriteString := (\<lambda>c d. (c, Some ''no space left on device''))\<rparr>)
              T_output
              ((start example_env)\<lparr>opc := O_Body ''192.168.0.0'', fhandle := Some ''out.txt''\<rparr>)
            = Some s'
          \<and> exit s' = None
          \<and> stdout s' = [''192.168.0.0'' @ newline]
          \<and> opc s' = O_Range
          \<and> files s' ''out.txt'' = Some ''old content'')"
proof -
  let ?e = "example_env\<lparr>WriteString := (\<lambda>c d. (c, Some ''no space left on device''))\<rparr>"
  let ?s = "(start example_env)\<lparr>opc := O_Body ''192.168.0.0'', fhandle := Some ''out.txt''\<rparr>"
  let ?out = "''192.168.0.0''"
  have h1: "exit ?s = None" by (simp add: start_def)
  have h2: "opc ?s = O_Body ?out" by simp
  have h3: "?out \<noteq> []" by simp
  have h4: "fhandle ?s = Some ''out.txt''" by simp
  have c: "file_content ?s ''out.txt'' = ''old content''"
    by (simp add: file_content_def start_def example_env_def)
  have w: "WriteString ?e ''old content'' (?out @ newline) =
      (''old content'', Some ''no space left on device'')" by simp
  then have h5': "snd (WriteString ?e ''old content'' (?out @ newline))
      = Some ''no space left on device''" by (simp only: snd_conv)
  then have h5: "snd (WriteString ?e (file_content ?s ''out.txt'') (?out @ newline))
      = Some ''no space left on device''" by (simp only: c)
  have o: "stdout ?s = []" by (simp add: start_def)
  from failed_file_write_is_ignored [OF h1 h2 h3 h4 h5, of no_opts]
  have "\<exists>s'. step no_opts ?e T_output ?s = Some s' \<and> exit s' = None
      \<and> stdout s' = [?out @ newline] \<and> opc s' = O_Range
      \<and> files s' ''out.txt'' = Some ''old content''"
    by (simp only: o c w fst_conv append_Nil)
  with h1 h5' show ?thesis by (intro conjI)
qed

text \<open>
  C10. With an output path, \<^verbatim>\<open>output\<close> calls \<^verbatim>\<open>os.Create\<close> once, before it receives
  any record. While it is at \<^verbatim>\<open>os.Create\<close> nothing was forwarded or printed and the
  files are as they were at the start; its step there, when \<^verbatim>\<open>os.Create\<close> succeeds,
  leaves the file at the path empty and goes to the receive; once it is past, the log
  holds exactly one \<^verbatim>\<open>os.Create\<close>, of the path, and the log never holds more than
  one. So when every \<^verbatim>\<open>WriteString\<close> appends its data, the file holds exactly
  the lines printed, and nothing of its earlier content.
\<close>

theorem output_file_created_once_before_records:
  assumes "s = run opts e sched (start e)" and "Output opts \<noteq> []"
  shows "(opc s = O_Create \<longrightarrow> fwd s = [] \<and> stdout s = [] \<and> files s = InitFiles e)
     \<and> (opc s = O_Create \<and> exit s = None \<and> Create e (Output opts) = None \<longrightarrow>
          (\<exists>s'. step opts e T_output s = Some s' \<and> opc s' = O_Range
             \<and> files s' (Output opts) = Some [] \<and> fhandle s' = Some (Output opts)
             \<and> creates s' = [Call_Create (Output opts)] \<and> fwd s' = []))
     \<and> (opc s \<noteq> O_Create \<longrightarrow> creates s = [Call_Create (Output opts)])
     \<and> length (creates s) \<le> 1
     \<and> ((\<forall>c d. fst (WriteString e c d) = c @ d) \<and> opc s \<noteq> O_Create \<longrightarrow>
          files s (Output opts) = Some (concat (stdout s)))"
proof -
  have i: "inv_create opts e s" unfolding assms(1) by (rule inv_create_run)
  from i have 1: "opc s = O_Create \<longrightarrow> fwd s = [] \<and> stdout s = [] \<and> files s = InitFiles e"
    by (simp add: inv_create_def)
  from i have cr: "opc s = O_Create \<longrightarrow>
      creates s = [] \<or> creates s = [Call_Create (Output opts)] \<and> exit s = Some 1"
    by (simp add: inv_create_def)
  have 2: "opc s = O_Create \<and> exit s = None \<and> Create e (Output opts) = None \<longrightarrow>
          (\<exists>s'. step opts e T_output s = Some s' \<and> opc s' = O_Range
             \<and> files s' (Output opts) = Some [] \<and> fhandle s' = Some (Output opts)
             \<and> creates s' = [Call_Create (Output opts)] \<and> fwd s' = [])"
  proof
    assume a: "opc s = O_Create \<and> exit s = None \<and> Create e (Output opts) = None"
    with cr have "creates s = []" by auto
    with a 1 assms(2) show "\<exists>s'. step opts e T_output s = Some s' \<and> opc s' = O_Range
             \<and> files s' (Output opts) = Some [] \<and> fhandle s' = Some (Output opts)
             \<and> creates s' = [Call_Create (Output opts)] \<and> fwd s' = []"
      by (simp add: step_def output_step_def creates_def)
  qed
  from i assms(2) have 3: "opc s \<noteq> O_Create \<longrightarrow> creates s = [Call_Create (Output opts)]"
    by (simp add: inv_create_def)
  from 3 cr have 4: "length (creates s) \<le> 1" by (cases "opc s = O_Create") auto
  have 5: "(\<forall>c d. fst (WriteString e c d) = c @ d) \<and> opc s \<noteq> O_Create \<longrightarrow>
          files s (Output opts) = Some (concat (stdout s))"
  proof
    assume a: "(\<forall>c d. fst (WriteString e c d) = c @ d) \<and> opc s \<noteq> O_Create"
    then have "inv_file opts s" unfolding assms(1) using inv_file_run by blast
    with a assms(2) show "files s (Output opts) = Some (concat (stdout s))"
      by (simp add: inv_file_def)
  qed
  from 1 2 3 4 5 show ?thesis by (intro conjI)
qed

theorem output_file_created_once_before_records_witness:
  "Output list_opts \<noteq> []
   \<and> InitFiles good_env ''out.txt'' = Some ''old content''
   \<and> opc (run list_opts good_env [] (start good_env)) = O_Create
   \<and> files (run list_opts good_env [] (start good_env)) = InitFiles good_env
   \<and> (\<exists>s'. step list_opts good_env T_output (run list_opts good_env [] (start good_env))
            = Some s'
          \<and> opc s' = O_Range
          \<and> files s' (Output list_opts) = Some []
          \<and> fhandle s' = Some (Output list_opts)
          \<and> creates s' = [Call_Create (Output list_opts)]
          \<and> fwd s' = [])
   \<and> opc (run list_opts good_env (round_robin 44) (start good_env)) \<noteq> O_Create
   \<and> creates (run list_opts good_env (round_robin 44) (start good_env)) =
       [Call_Create (Output list_opts)]
   \<and> files (run list_opts good_env (round_robin 44) (start good_env)) (Output list_opts) =
       Some (concat (stdout (run list_opts good_env (round_robin 44) (start good_env))))"
proof -
  let ?init = "run list_opts good_env [] (start good_env)"
  let ?s = "run list_opts good_env (round_robin 44) (start good_env)"
  have h: "Output list_opts \<noteq> []" by code_simp
  have old: "InitFiles good_env ''out.txt'' = Some ''old content''" by code_simp
  have o0: "opc ?init = O_Create" by code_simp
  have x0: "exit ?init = None" by code_simp
  have cr: "Create good_env (Output list_opts) = None" by code_simp
  have o: "opc ?s \<noteq> O_Create" by code_simp
  have w: "\<forall>c d. fst (WriteString good_env c d) = c @ d"
    by (simp add: good_env_def example_env_def)
  note t0 = output_file_created_once_before_records [OF refl h, of good_env "[]"]
  note t = output_file_created_once_before_records [OF refl h, of good_env "round_robin 44"]
  note a = t0 [THEN conjunct1, THEN mp, OF o0, THEN conjunct2, THEN conjunct2]
  from o0 x0 cr have pre: "opc ?init = O_Create \<and> exit ?init = None
      \<and> Create good_env (Output list_opts) = None" by (intro conjI)
  note b = t0 [THEN conjunct2, THEN conjunct1, THEN mp, OF pre]
  note c = t [THEN conjunct2, THEN conjunct2, THEN conjunct1, THEN mp, OF o]
  from w o have wo: "(\<forall>c d. fst (WriteString good_env c d) = c @ d) \<and> opc ?s \<noteq> O_Create"
    by (intro conjI)
  note d = t [THEN conjunct2, THEN conjunct2, THEN conjunct2, THEN conjunct2, THEN mp, OF wo]
  from h old o0 a b o c d show ?thesis by (intro conjI)
qed

end
